theory Spec2Isabelle
  imports Complex_Main "HOL-Library.Log_Nat"
begin

section \<open>JavaScript numbers\<close>

text \<open>
  The histogram code computes with JavaScript numbers: IEEE-754 doubles together with
  \<open>Infinity\<close>, \<open>-Infinity\<close> and \<open>NaN\<close>. A finite number is modelled by the rational
  it denotes. Every arithmetic operation of the language returns the exact result
  rounded to a double; the rounding is a parameter \<open>rnd\<close> of the model, with two
  instances: \<open>ieee\<close> (round to nearest, ties to even, 53 bits of precision, with
  gradual underflow and overflow to an infinity), which is what the program runs with,
  and \<open>exact\<close> (no rounding), the arithmetic of the real numbers. The model has one
  zero: the sign of a zero can only change the sign of an infinity that a division by
  it produces, and no branch of the code below tells \<open>Infinity\<close> from \<open>-Infinity\<close>
  after such a division.
\<close>

datatype jsnum = Fin rat | PInf | NInf | NaN

type_synonym rounding = "rat \<Rightarrow> jsnum"

definition exact :: rounding where
  "exact x = Fin x"

text \<open>The integer nearest to \<open>q\<close>, the even one of the two when \<open>q\<close> is half-way.\<close>

definition round_even :: "rat \<Rightarrow> int" where
  "round_even q =
     (let f = \<lfloor>q\<rfloor>; d = q - of_int f
      in if d < 1 / 2 then f else if 1 / 2 < d then f + 1
         else if even f then f else f + 1)"

definition pow2 :: "int \<Rightarrow> rat" where
  "pow2 e = (if 0 \<le> e then 2 ^ nat e else 1 / 2 ^ nat (- e))"

definition pow10 :: "int \<Rightarrow> rat" where
  "pow10 e = (if 0 \<le> e then 10 ^ nat e else 1 / 10 ^ nat (- e))"

text \<open>
  \<open>ilog b x\<close> is the integer \<open>e\<close> with \<open>b ^ e \<le> x < b ^ (e + 1)\<close>, for \<open>x > 0\<close>:
  the floor of the logarithm of \<open>x\<close> to base \<open>b\<close> (lemma \<open>ilog_floor_log\<close>).
\<close>

definition ilog :: "nat \<Rightarrow> rat \<Rightarrow> int" where
  "ilog b x =
     (if 1 \<le> x then int (floorlog b (nat \<lfloor>x\<rfloor>)) - 1
      else let k = int (floorlog b (nat \<lfloor>1 / x\<rfloor>)) - 1
           in if of_nat b ^ nat k * x = 1 then - k else - k - 1)"

text \<open>
  Rounding to a double. A double in the binade \<open>2 ^ e \<le> a < 2 ^ (e + 1)\<close> is a multiple
  of \<open>2 ^ (e - 52)\<close>; below \<open>2 ^ - 1022\<close> the spacing stays \<open>2 ^ - 1074\<close>; a result of
  \<open>2 ^ 1024\<close> or more is an infinity.
\<close>

definition ieee :: rounding where
  "ieee x =
     (if x = 0 then Fin 0
      else let a = \<bar>x\<bar>;
               e = max (ilog 2 a) (- 1022);
               ulp = pow2 (e - 52);
               m = round_even (a / ulp)
           in if 1023 < e \<or> (e = 1023 \<and> m = 9007199254740992)
              then (if 0 < x then PInf else NInf)
              else Fin (of_int (if 0 < x then m else - m) * ulp))"

subsection \<open>Arithmetic and comparison\<close>

definition js_sign :: "jsnum \<Rightarrow> int" where
  "js_sign a =
     (case a of Fin x \<Rightarrow> (if 0 < x then 1 else if x < 0 then - 1 else 0)
      | PInf \<Rightarrow> 1 | NInf \<Rightarrow> - 1 | NaN \<Rightarrow> 0)"

definition js_neg :: "jsnum \<Rightarrow> jsnum" where
  "js_neg a = (case a of Fin x \<Rightarrow> Fin (- x) | PInf \<Rightarrow> NInf | NInf \<Rightarrow> PInf | NaN \<Rightarrow> NaN)"

definition js_add :: "rounding \<Rightarrow> jsnum \<Rightarrow> jsnum \<Rightarrow> jsnum" where
  "js_add rnd a b =
     (case (a, b) of
        (Fin x, Fin y) \<Rightarrow> rnd (x + y)
      | (NaN, _) \<Rightarrow> NaN
      | (_, NaN) \<Rightarrow> NaN
      | (PInf, NInf) \<Rightarrow> NaN
      | (NInf, PInf) \<Rightarrow> NaN
      | (PInf, _) \<Rightarrow> PInf
      | (NInf, _) \<Rightarrow> NInf
      | (Fin x, c) \<Rightarrow> c)"

definition js_sub :: "rounding \<Rightarrow> jsnum \<Rightarrow> jsnum \<Rightarrow> jsnum" where
  "js_sub rnd a b = js_add rnd a (js_neg b)"

definition js_mul :: "rounding \<Rightarrow> jsnum \<Rightarrow> jsnum \<Rightarrow> jsnum" where
  "js_mul rnd a b =
     (case (a, b) of
        (Fin x, Fin y) \<Rightarrow> rnd (x * y)
      | _ \<Rightarrow> (if a = NaN \<or> b = NaN \<or> js_sign a * js_sign b = 0 then NaN
              else if 0 < js_sign a * js_sign b then PInf else NInf))"

definition js_div :: "rounding \<Rightarrow> jsnum \<Rightarrow> jsnum \<Rightarrow> jsnum" where
  "js_div rnd a b =
     (case (a, b) of
        (Fin x, Fin y) \<Rightarrow>
          (if y = 0 then (if x = 0 then NaN else if 0 < x then PInf else NInf)
           else rnd (x / y))
      | (NaN, _) \<Rightarrow> NaN
      | (_, NaN) \<Rightarrow> NaN
      | (Fin x, _) \<Rightarrow> Fin 0
      | (_, Fin y) \<Rightarrow> (if js_sign a * (if y < 0 then - 1 else 1) < 0 then NInf else PInf)
      | _ \<Rightarrow> NaN)"

text \<open>\<open>===\<close> on numbers: \<open>NaN\<close> equals nothing, itself included.\<close>

definition js_eq :: "jsnum \<Rightarrow> jsnum \<Rightarrow> bool" where
  "js_eq a b = (a \<noteq> NaN \<and> a = b)"

definition js_lt :: "jsnum \<Rightarrow> jsnum \<Rightarrow> bool" where
  "js_lt a b =
     (case (a, b) of
        (Fin x, Fin y) \<Rightarrow> x < y
      | (NaN, _) \<Rightarrow> False
      | (_, NaN) \<Rightarrow> False
      | (NInf, NInf) \<Rightarrow> False
      | (NInf, _) \<Rightarrow> True
      | (PInf, _) \<Rightarrow> False
      | (Fin x, PInf) \<Rightarrow> True
      | (Fin x, NInf) \<Rightarrow> False)"

definition js_le :: "jsnum \<Rightarrow> jsnum \<Rightarrow> bool" where
  "js_le a b = (js_lt a b \<or> js_eq a b)"

definition js_gt :: "jsnum \<Rightarrow> jsnum \<Rightarrow> bool" where
  "js_gt a b = js_lt b a"

definition js_ge :: "jsnum \<Rightarrow> jsnum \<Rightarrow> bool" where
  "js_ge a b = js_le b a"

text \<open>
  \<open>Math.floor\<close>, \<open>Math.round\<close> (to the nearest integer, a half rounded up) and
  \<open>Math.abs\<close>. Their results are doubles whenever the argument is, so they do not round.
\<close>

definition Math_floor :: "jsnum \<Rightarrow> jsnum" where
  "Math_floor a = (case a of Fin x \<Rightarrow> Fin (of_int \<lfloor>x\<rfloor>) | _ \<Rightarrow> a)"

definition Math_round :: "jsnum \<Rightarrow> jsnum" where
  "Math_round a = (case a of Fin x \<Rightarrow> Fin (of_int \<lfloor>x + 1 / 2\<rfloor>) | _ \<Rightarrow> a)"

definition Math_abs :: "jsnum \<Rightarrow> jsnum" where
  "Math_abs a = (case a of Fin x \<Rightarrow> Fin \<bar>x\<bar> | NInf \<Rightarrow> PInf | _ \<Rightarrow> a)"

text \<open>
  \<open>Math.max(...xs)\<close> and \<open>Math.min(...xs)\<close>: \<open>-Infinity\<close> and \<open>Infinity\<close> on no
  arguments, \<open>NaN\<close> as soon as one argument is \<open>NaN\<close>.
\<close>

definition max2 :: "jsnum \<Rightarrow> jsnum \<Rightarrow> jsnum" where
  "max2 a b = (if a = NaN \<or> b = NaN then NaN else if js_lt a b then b else a)"

definition min2 :: "jsnum \<Rightarrow> jsnum \<Rightarrow> jsnum" where
  "min2 a b = (if a = NaN \<or> b = NaN then NaN else if js_lt b a then b else a)"

definition Math_max :: "jsnum list \<Rightarrow> jsnum" where
  "Math_max xs = foldl max2 NInf xs"

definition Math_min :: "jsnum list \<Rightarrow> jsnum" where
  "Math_min xs = foldl min2 PInf xs"

text \<open>
  \<open>Math.floor(Math.log10(s))\<close>, taken as one operation since a logarithm is not
  rational, and \<open>10 ** k\<close> for the integral \<open>k\<close> it returns. The model takes the floor
  of the exact logarithm and the correctly rounded power. An engine computes
  \<open>Math.log10\<close> and \<open>**\<close> as approximations in double arithmetic and floors the rounded
  logarithm, which gives the next integer when \<open>s\<close> is within rounding distance below a
  power of ten (the double just below \<open>10 ^ 33\<close>, say): the two agree on all \<open>s\<close> but
  such ones.
\<close>

definition floor_log10 :: "jsnum \<Rightarrow> jsnum" where
  "floor_log10 a =
     (case a of
        Fin x \<Rightarrow> (if 0 < x then Fin (of_int (ilog 10 x)) else if x = 0 then NInf else NaN)
      | PInf \<Rightarrow> PInf
      | _ \<Rightarrow> NaN)"

definition ten_to_the :: "rounding \<Rightarrow> jsnum \<Rightarrow> jsnum" where
  "ten_to_the rnd a =
     (case a of Fin k \<Rightarrow> rnd (pow10 \<lfloor>k\<rfloor>) | PInf \<Rightarrow> PInf | NInf \<Rightarrow> Fin 0 | NaN \<Rightarrow> NaN)"

subsection \<open>Numbers as text\<close>

text \<open>
  A JavaScript string is modelled by its UTF-8 bytes. The minus sign U+2212 of the label
  formatter is the three bytes \<open>E2 88 92\<close>; the hyphen-minus is the byte \<open>2D\<close>.
\<close>

definition minus_sign :: string where
  "minus_sign = [CHR 0xE2, CHR 0x88, CHR 0x92]"

fun dec :: "nat \<Rightarrow> string" where
  "dec n = (if n < 10 then [''0123456789'' ! n] else dec (n div 10) @ [''0123456789'' ! (n mod 10)])"

declare dec.simps [simp del]

definition digit_chars :: "char set" where
  "digit_chars = set ''0123456789''"

definition strip_zeros :: "string \<Rightarrow> string" where
  "strip_zeros ds = rev (dropWhile (\<lambda>c. c = CHR ''0'') (rev ds))"

text \<open>
  The digits of \<open>Number::toString\<close>: the least number \<open>k\<close> of digits, and the
  \<open>k\<close>-digit integer \<open>s\<close>, such that \<open>s * 10 ^ (n - k)\<close> is read back as the same
  double as \<open>x\<close>; of two such \<open>s\<close> the one nearer to \<open>x\<close>. Seventeen digits always
  suffice. \<open>n\<close> is such that \<open>10 ^ (n - 1) \<le> x < 10 ^ n\<close>.
\<close>

fun shortest_digits :: "nat \<Rightarrow> nat \<Rightarrow> rat \<Rightarrow> int \<Rightarrow> nat \<times> nat" where
  "shortest_digits 0 k x n = (nat (round_even (x / pow10 (n - int k))), k)"
| "shortest_digits (Suc fuel) k x n =
     (let u = pow10 (n - int k);
          lo = \<lfloor>x / u\<rfloor>;
          hi = lo + 1;
          oklo = (ieee (of_int lo * u) = ieee x);
          okhi = (ieee (of_int hi * u) = ieee x)
      in if oklo \<and> okhi then (nat (round_even (x / u)), k)
         else if oklo then (nat lo, k)
         else if okhi then (nat hi, k)
         else shortest_digits fuel (Suc k) x n)"

definition toString_pos :: "rat \<Rightarrow> string" where
  "toString_pos x =
     (let n0 = ilog 10 x + 1;
          (s, k0) = shortest_digits 16 1 x n0;
          n = n0 + int (length (dec s)) - int k0;
          ds = strip_zeros (dec s);
          k = int (length ds)
      in if k \<le> n \<and> n \<le> 21 then ds @ replicate (nat (n - k)) CHR ''0''
         else if 0 < n \<and> n \<le> 21 then take (nat n) ds @ ''.'' @ drop (nat n) ds
         else if - 6 < n \<and> n \<le> 0 then ''0.'' @ replicate (nat (- n)) CHR ''0'' @ ds
         else (if k = 1 then ds else take 1 ds @ ''.'' @ drop 1 ds)
              @ ''e'' @ (if 0 \<le> n - 1 then ''+'' else ''-'') @ dec (nat \<bar>n - 1\<bar>))"

text \<open>\<open>Number::toString\<close>, which a template literal applies to a number.\<close>

definition toString :: "jsnum \<Rightarrow> string" where
  "toString a =
     (case a of
        NaN \<Rightarrow> ''NaN''
      | PInf \<Rightarrow> ''Infinity''
      | NInf \<Rightarrow> ''-Infinity''
      | Fin x \<Rightarrow> (if x = 0 then ''0''
                  else if x < 0 then ''-'' @ toString_pos (- x)
                  else toString_pos x))"

text \<open>
  \<open>x.toFixed(f)\<close>: the integer \<open>n\<close> with \<open>n / 10 ^ f\<close> nearest to \<open>x\<close> (the larger of
  two), written with \<open>f\<close> digits after the point.
\<close>

definition toFixed :: "nat \<Rightarrow> jsnum \<Rightarrow> string" where
  "toFixed f a =
     (case a of
        Fin x \<Rightarrow>
          (if 10 ^ 21 \<le> \<bar>x\<bar> then toString a
           else let m = dec (nat \<lfloor>\<bar>x\<bar> * 10 ^ f + 1 / 2\<rfloor>);
                    m = replicate (Suc f - length m) CHR ''0'' @ m;
                    k = length m
                in (if x < 0 then ''-'' else [])
                   @ (if f = 0 then m else take (k - f) m @ ''.'' @ drop (k - f) m))
      | _ \<Rightarrow> toString a)"

section \<open>The histogram builder\<close>

subsection \<open>Scenarios and the values of an indicator\<close>

text \<open>
  A scenario holds its display name (\<open>metadata.short\<close>) and \<open>values\<close>, a \<open>Map\<close> from
  area to a \<open>Map\<close> from indicator name to number, iterated in insertion order: a list
  of the areas with their records. The configuration store and the colour ramp are not
  part of the source; the functions below take them in an environment, together with the
  rounding of the arithmetic.
\<close>

record scenario =
  metadata_short :: string
  area_values :: "(string \<times> (string \<rightharpoonup> jsnum)) list"

record env =
  arith :: rounding
  scale_min :: jsnum
  scale_max :: jsnum
  makeColormap :: "string \<Rightarrow> nat \<Rightarrow> string list"

text \<open>
  \<open>m.get(indicator)\<close> is \<open>undefined\<close> for an indicator that the area's record lacks.
  The code only ever computes or compares with the values it extracts, where \<open>undefined\<close>
  behaves as \<open>NaN\<close> does.
\<close>

definition getValues :: "string \<Rightarrow> scenario \<Rightarrow> jsnum list" where
  "getValues indicator scen =
     map (\<lambda>m. case m indicator of Some v \<Rightarrow> v | None \<Rightarrow> NaN) (map snd (area_values scen))"

subsection \<open>Tick step size\<close>

definition calculateTickStepSize :: "rounding \<Rightarrow> jsnum \<Rightarrow> jsnum \<Rightarrow> jsnum" where
  "calculateTickStepSize rnd mx mn =
     (let s = js_div rnd (js_sub rnd mx mn) (Fin 4)
      in if js_lt s (Fin (1 / 2)) then Fin (1 / 2)
         else if js_lt s (Fin 1) then Fin 1
         else if js_gt s (Fin 100) then
           (let orderOfMagnitude = ten_to_the rnd (floor_log10 s)
            in js_mul rnd (Math_round (js_div rnd s orderOfMagnitude)) orderOfMagnitude)
         else Math_round s)"

subsection \<open>Tick labels\<close>

text \<open>The argument is typed as a number, and the first line passes a string through.\<close>

datatype label_value = Str string | Num jsnum

definition prettyLabel :: "rounding \<Rightarrow> label_value \<Rightarrow> bool \<Rightarrow> string" where
  "prettyLabel rnd v withSign =
     (case v of
        Str s \<Rightarrow> s
      | Num val \<Rightarrow>
          if js_eq val (Fin 0) then ''0''
          else if js_ge val (Fin 1000000) then
            (if withSign then ''+'' else []) @ toString (js_div rnd val (Fin 1000000)) @ ''M''
          else if js_ge val (Fin 1000) then
            (if withSign then ''+'' else []) @ toString (js_div rnd val (Fin 1000)) @ ''K''
          else if js_le val (Fin (- 1000000)) then
            minus_sign @ toString (Math_abs (js_div rnd val (Fin 1000000))) @ ''M''
          else if js_le val (Fin (- 1000)) then
            minus_sign @ toString (Math_abs (js_div rnd val (Fin 1000))) @ ''K''
          else if js_ge val (Fin 0) then
            (if withSign then ''+'' else []) @ toString val
          else minus_sign @ toString (Math_abs val))"

subsection \<open>Binning\<close>

record bins =
  counts :: "nat list"
  centres :: "jsnum list"

text \<open>
  The array index that a number denotes. \<open>bin_step\<close> only calls it on a \<open>bin\<close>
  between \<open>0\<close> and \<open>nsteps\<close>.
\<close>

definition index_of :: "jsnum \<Rightarrow> nat" where
  "index_of a = (case a of Fin x \<Rightarrow> nat \<lfloor>x\<rfloor> | _ \<Rightarrow> 0)"

text \<open>
  The body of the loop over the data. Both \<open>if\<close> statements run for every value: the
  second one is not an \<open>else\<close> of the first. \<open>counts\<close> holds numbers that only ever grow
  by one from zero, hence naturals. With \<open>nsteps = 0\<close> the first assignment writes the
  property \<open>-1\<close> of an empty array, which adds no element to it. \<open>Array(nsteps)\<close>
  exists for a natural \<open>nsteps\<close> below \<open>2 ^ 32\<close>.
\<close>

definition bin_step :: "rounding \<Rightarrow> jsnum \<Rightarrow> jsnum \<Rightarrow> nat \<Rightarrow> jsnum \<Rightarrow> nat list \<Rightarrow> jsnum \<Rightarrow> nat list" where
  "bin_step rnd mn mx nsteps stepSize cs d =
     (let cs1 = (if js_eq d mx
                 then (if 0 < nsteps then cs[nsteps - 1 := cs ! (nsteps - 1) + 1] else cs)
                 else cs);
          b = Math_floor (js_div rnd (js_sub rnd d mn) stepSize)
      in if js_ge b (Fin 0) \<and> js_lt b (Fin (of_nat nsteps))
         then cs1[index_of b := cs1 ! index_of b + 1]
         else cs1)"

definition bin :: "rounding \<Rightarrow> jsnum list \<Rightarrow> jsnum \<Rightarrow> jsnum \<Rightarrow> nat \<Rightarrow> bins" where
  "bin rnd data mn mx nsteps =
     (let stepSize = js_div rnd (js_sub rnd mx mn) (Fin (of_nat nsteps));
          cs = foldl (bin_step rnd mn mx nsteps stepSize) (replicate nsteps 0) data;
          ctrs = map (\<lambda>i. js_add rnd mn
                               (js_mul rnd (js_add rnd (Fin (of_nat i)) (Fin (1 / 2))) stepSize))
                     [0..<nsteps]
      in \<lparr>counts = cs, centres = ctrs\<rparr>)"

definition getMean :: "rounding \<Rightarrow> jsnum list \<Rightarrow> jsnum" where
  "getMean rnd xs = js_div rnd (foldl (js_add rnd) (Fin 0) xs) (Fin (of_nat (length xs)))"

subsection \<open>Chart datasets\<close>

text \<open>
  \<open>data\<close> is an array of numbers or of points \<open>{x, y}\<close>; \<open>backgroundColor\<close> is one colour
  or an array of colours. A property that an object literal does not set is \<open>None\<close>.
\<close>

datatype dataset_data = Numbers "jsnum list" | Points "(jsnum \<times> jsnum) list"

datatype color_spec = Color string | Colors "string list"

record ChartDataset =
  type :: string
  label :: string
  data :: dataset_data
  backgroundColor :: "color_spec option"
  borderWidth :: "jsnum option"
  showLine :: "bool option"
  grouped :: "bool option"
  order :: "nat option"
  categoryPercentage :: "jsnum option"
  barPercentage :: "jsnum option"
  borderDash :: "nat list option"
  borderColor :: "string option"
  pointStyle :: "string option"
  pointRadius :: "nat option"

record ChartData =
  labels :: "jsnum list"
  datasets :: "ChartDataset list"
  tickStepSize :: jsnum

definition counts_data :: "nat list \<Rightarrow> jsnum list" where
  "counts_data cs = map (\<lambda>c. Fin (of_nat c)) cs"

text \<open>An object literal with no property set, which the literals below extend.\<close>

definition dataset :: "string \<Rightarrow> string \<Rightarrow> dataset_data \<Rightarrow> ChartDataset" where
  "dataset t l d =
     \<lparr>type = t, label = l, data = d, backgroundColor = None, borderWidth = None,
      showLine = None, grouped = None, order = None, categoryPercentage = None,
      barPercentage = None, borderDash = None, borderColor = None, pointStyle = None,
      pointRadius = None\<rparr>"

subsection \<open>Chart data for one scenario\<close>

definition makeChartDataOneScenario :: "env \<Rightarrow> string \<Rightarrow> scenario \<Rightarrow> nat \<Rightarrow> ChartData" where
  "makeChartDataOneScenario E indicator scen nbars =
     (let rnd = arith E;
          colors = makeColormap E indicator nbars;
          rawValues = getValues indicator scen;
          bins = bin rnd rawValues (scale_min E) (scale_max E) nbars;
          mean = getMean rnd rawValues
      in \<lparr>labels = centres bins,
          datasets =
            [(dataset ''scatter'' (''Mean: '' @ toFixed 2 mean)
                (Points [(mean, Fin 5),
                         (mean, js_mul rnd (Math_max (counts_data (counts bins))) (rnd (11 / 10)))]))
               \<lparr>showLine := Some True, pointStyle := Some ''line'', pointRadius := Some 0,
                borderDash := Some [6, 3], borderWidth := Some (Fin (3 / 2)),
                borderColor := Some ''#000000''\<rparr>,
             (dataset ''bar'' (metadata_short scen) (Numbers (counts_data (counts bins))))
               \<lparr>backgroundColor := Some (Colors colors), borderWidth := Some (Fin 0),
                categoryPercentage := Some (Fin 1), barPercentage := Some (Fin 1),
                pointStyle := Some ''rect''\<rparr>],
          tickStepSize = calculateTickStepSize rnd (scale_max E) (scale_min E)\<rparr>)"

subsection \<open>Chart data for two scenarios\<close>

definition makeChartDataTwoScenarios ::
  "env \<Rightarrow> string \<Rightarrow> scenario \<Rightarrow> scenario \<Rightarrow> nat \<Rightarrow> ChartData" where
  "makeChartDataTwoScenarios E indicator scen compareScenario nbars =
     (let rnd = arith E;
          colors = makeColormap E indicator nbars;
          rawValues = getValues indicator scen;
          cmpRawValues = getValues indicator compareScenario;
          bins = bin rnd rawValues (scale_min E) (scale_max E) nbars;
          cmpBins = bin rnd cmpRawValues (scale_min E) (scale_max E) nbars;
          mean = getMean rnd rawValues;
          cmpMean = getMean rnd cmpRawValues
      in \<lparr>labels = centres bins,
          datasets =
            [(dataset ''scatter'' (metadata_short compareScenario @ '' mean: '' @ toFixed 2 cmpMean)
                (Points [(mean, Fin 5),
                         (mean, js_mul rnd (Math_max (counts_data (counts bins))) (rnd (11 / 10)))]))
               \<lparr>showLine := Some True, pointStyle := Some ''line'', pointRadius := Some 0,
                borderDash := Some [6, 3], borderWidth := Some (Fin (3 / 2)),
                borderColor := Some ''#ff0000''\<rparr>,
             (dataset ''scatter'' (metadata_short scen @ '' mean: '' @ toFixed 2 mean)
                (Points [(mean, Fin 5),
                         (mean, js_mul rnd (Math_max (counts_data (counts bins))) (rnd (11 / 10)))]))
               \<lparr>showLine := Some True, pointStyle := Some ''line'', pointRadius := Some 0,
                borderDash := Some [6, 3], borderWidth := Some (Fin (3 / 2)),
                borderColor := Some ''#000000''\<rparr>,
             (dataset ''bar'' (metadata_short compareScenario) (Numbers (counts_data (counts cmpBins))))
               \<lparr>backgroundColor := Some (Color ''rgba(1, 1, 1, 0)''), borderWidth := Some (Fin 1),
                borderColor := Some ''#f00'', barPercentage := Some (Fin 1),
                grouped := Some False, order := Some 1, categoryPercentage := Some (Fin 1),
                pointStyle := Some ''rect''\<rparr>,
             (dataset ''bar'' (metadata_short scen) (Numbers (counts_data (counts bins))))
               \<lparr>backgroundColor := Some (Colors colors), borderWidth := Some (Fin 0),
                grouped := Some False, order := Some 2, categoryPercentage := Some (Fin 1),
                barPercentage := Some (Fin 1), pointStyle := Some ''rect''\<rparr>],
          tickStepSize = calculateTickStepSize rnd (scale_max E) (scale_min E)\<rparr>)"

subsection \<open>Chart data for the difference of two scenarios\<close>

text \<open>
  \<open>scenValues.map((value, i) => value - cmpScenValues[i])\<close>: an index beyond the end of
  \<open>cmpScenValues\<close> reads \<open>undefined\<close>, and the difference is \<open>NaN\<close>. The filter keeps what
  is \<open>!== 0\<close>, \<open>NaN\<close> included.
\<close>

definition differences :: "rounding \<Rightarrow> jsnum list \<Rightarrow> jsnum list \<Rightarrow> jsnum list" where
  "differences rnd scenValues cmpScenValues =
     filter (\<lambda>v. \<not> js_eq v (Fin 0))
       (map (\<lambda>i. js_sub rnd (scenValues ! i)
                    (if i < length cmpScenValues then cmpScenValues ! i else NaN))
            [0..<length scenValues])"

text \<open>The bound \<open>max\<close> of the symmetric range; \<open>min\<close> is its negation.\<close>

definition difference_max :: "rounding \<Rightarrow> jsnum list \<Rightarrow> jsnum" where
  "difference_max rnd rawValues =
     Math_max [Math_abs (Math_min rawValues), Math_abs (Math_max rawValues), rnd (1 / 10)]"

definition makeChartDataDifference ::
  "env \<Rightarrow> string \<Rightarrow> scenario \<Rightarrow> scenario \<Rightarrow> nat \<Rightarrow> ChartData" where
  "makeChartDataDifference E indicator scen compareScenario nbars =
     (let rnd = arith E;
          colors = makeColormap E ''diff'' nbars;
          scenValues = getValues indicator scen;
          cmpScenValues = getValues indicator compareScenario;
          rawValues = differences rnd scenValues cmpScenValues;
          mx = difference_max rnd rawValues;
          mn = js_neg mx;
          bins = bin rnd rawValues mn mx nbars
      in \<lparr>labels = centres bins,
          datasets =
            [(dataset ''bar'' ''Difference'' (Numbers (counts_data (counts bins))))
               \<lparr>backgroundColor := Some (Colors colors), borderWidth := Some (Fin 0),
                categoryPercentage := Some (Fin 1), barPercentage := Some (Fin 1),
                pointStyle := Some ''rect''\<rparr>],
          tickStepSize = calculateTickStepSize rnd mx mn\<rparr>)"

subsection \<open>Dispatch\<close>

text \<open>
  \<open>compareScenario\<close> is a scenario or \<open>null\<close>. With a scenario and a \<open>chartStyle\<close> that
  is neither \<open>"both"\<close> nor \<open>"difference"\<close> the function ends without a \<open>return\<close>: its
  value is \<open>undefined\<close>, here \<open>None\<close>.
\<close>

definition makeChartData ::
  "env \<Rightarrow> string \<Rightarrow> scenario \<Rightarrow> scenario option \<Rightarrow> nat \<Rightarrow> string \<Rightarrow> ChartData option" where
  "makeChartData E indicator scen compareScenario nbars chartStyle =
     (case compareScenario of
        None \<Rightarrow> Some (makeChartDataOneScenario E indicator scen nbars)
      | Some cmp \<Rightarrow>
          if chartStyle = ''both'' then
            Some (makeChartDataTwoScenarios E indicator scen cmp nbars)
          else if chartStyle = ''difference'' then
            Some (makeChartDataDifference E indicator scen cmp nbars)
          else None)"

subsection \<open>The tick step size as the specification words it\<close>

definition tickStepSize_spec :: "rounding \<Rightarrow> jsnum \<Rightarrow> jsnum \<Rightarrow> jsnum" where
  "tickStepSize_spec rnd mx mn =
     (let raw = js_div rnd (js_sub rnd mx mn) (Fin 4);
          magnitude = ten_to_the rnd (floor_log10 raw)
      in if js_lt raw (Fin (1 / 2)) then Fin (1 / 2)
         else if js_lt raw (Fin 1) then Fin 1
         else if js_gt raw (Fin 100)
           then js_mul rnd (Math_round (js_div rnd raw magnitude)) magnitude
         else Math_round raw)"

subsection \<open>Sample inputs\<close>

text \<open>
  A display range from 0 to 4, a one-colour ramp, and two scenarios over the same three
  areas: \<open>x\<close> is 1, 1, 1 in scenario A and 1, 3, 2 in scenario B.
\<close>

definition sample_env :: env where
  "sample_env =
     \<lparr>arith = ieee, scale_min = Fin 0, scale_max = Fin 4,
      makeColormap = (\<lambda>indicator n. replicate n ''#888888'')\<rparr>"

definition scenario_A :: scenario where
  "scenario_A =
     \<lparr>metadata_short = ''A'',
      area_values = [(''E01'', [''x'' \<mapsto> Fin 1]), (''E02'', [''x'' \<mapsto> Fin 1]),
                     (''E03'', [''x'' \<mapsto> Fin 1])]\<rparr>"

definition scenario_B :: scenario where
  "scenario_B =
     \<lparr>metadata_short = ''B'',
      area_values = [(''E01'', [''x'' \<mapsto> Fin 1]), (''E02'', [''x'' \<mapsto> Fin 3]),
                     (''E03'', [''x'' \<mapsto> Fin 2])]\<rparr>"

section \<open>Properties\<close>

subsection \<open>Integer logarithms and rounding\<close>

text \<open>\<open>ilog\<close> is the floor of the logarithm.\<close>

lemma ilog_bounds:
  assumes "0 < x" "1 < b"
  shows "of_nat b powi ilog b x \<le> x \<and> x < of_nat b powi (ilog b x + 1)"
proof (cases "1 \<le> x")
  case True
  define m where "m = nat \<lfloor>x\<rfloor>"
  define f where "f = floorlog b m"
  have m: "0 < m" using True by (simp add: m_def)
  have fb: "b ^ (f - 1) \<le> m" "m < b ^ f"
    using floorlog_bounds [OF m assms(2)] by (simp_all add: f_def)
  have f1: "1 \<le> f" using m assms(2) by (simp add: f_def floorlog_def)
  have il: "ilog b x = int (f - 1)" using True f1 by (simp add: ilog_def m_def f_def)
  have mx: "rat_of_nat m \<le> x" using True by (simp add: m_def)
  have xm: "x < rat_of_nat m + 1"
  proof -
    have "x < of_int \<lfloor>x\<rfloor> + 1" by linarith
    moreover have "rat_of_int \<lfloor>x\<rfloor> = rat_of_nat m" using True by (simp add: m_def)
    ultimately show ?thesis by simp
  qed
  have lo: "rat_of_nat b ^ (f - 1) \<le> x"
  proof -
    have "rat_of_nat b ^ (f - 1) = rat_of_nat (b ^ (f - 1))" by simp
    also have "\<dots> \<le> rat_of_nat m" using fb(1) by (simp only: of_nat_le_iff)
    also have "\<dots> \<le> x" by (rule mx)
    finally show ?thesis .
  qed
  have hi: "x < rat_of_nat b ^ f"
  proof -
    have "m + 1 \<le> b ^ f" using fb(2) by simp
    then have "rat_of_nat (m + 1) \<le> rat_of_nat (b ^ f)" by (simp only: of_nat_le_iff)
    moreover have "rat_of_nat (m + 1) = rat_of_nat m + 1" by simp
    moreover have "rat_of_nat (b ^ f) = rat_of_nat b ^ f" by simp
    ultimately have "rat_of_nat m + 1 \<le> rat_of_nat b ^ f" by (simp only:)
    with xm show ?thesis by (rule less_le_trans)
  qed
  have il1: "ilog b x + 1 = int f" using il f1 by simp
  show ?thesis unfolding il1 unfolding il power_int_of_nat using lo hi by simp
next
  case False
  define y where "y = 1 / x"
  have y1: "1 < y" using False assms(1) by (simp add: y_def)
  define m where "m = nat \<lfloor>y\<rfloor>"
  define f where "f = floorlog b m"
  have m: "0 < m" using y1 by (simp add: m_def)
  have fb: "b ^ (f - 1) \<le> m" "m < b ^ f"
    using floorlog_bounds [OF m assms(2)] by (simp_all add: f_def)
  have f1: "1 \<le> f" using m assms(2) by (simp add: f_def floorlog_def)
  have my: "rat_of_nat m \<le> y" using y1 by (simp add: m_def)
  have ym: "y < rat_of_nat m + 1"
  proof -
    have "y < of_int \<lfloor>y\<rfloor> + 1" by linarith
    moreover have "rat_of_int \<lfloor>y\<rfloor> = rat_of_nat m" using y1 by (simp add: m_def)
    ultimately show ?thesis by simp
  qed
  have lo: "rat_of_nat b ^ (f - 1) \<le> y"
  proof -
    have "rat_of_nat b ^ (f - 1) = rat_of_nat (b ^ (f - 1))" by simp
    also have "\<dots> \<le> rat_of_nat m" using fb(1) by (simp only: of_nat_le_iff)
    also have "\<dots> \<le> y" by (rule my)
    finally show ?thesis .
  qed
  have hi: "y < rat_of_nat b ^ f"
  proof -
    have "m + 1 \<le> b ^ f" using fb(2) by simp
    then have "rat_of_nat (m + 1) \<le> rat_of_nat (b ^ f)" by (simp only: of_nat_le_iff)
    moreover have "rat_of_nat (m + 1) = rat_of_nat m + 1" by simp
    moreover have "rat_of_nat (b ^ f) = rat_of_nat b ^ f" by simp
    ultimately have "rat_of_nat m + 1 \<le> rat_of_nat b ^ f" by (simp only:)
    with ym show ?thesis by (rule less_le_trans)
  qed
  have bpos: "0 < rat_of_nat b" using assms(2) by simp
  have b1: "1 < rat_of_nat b" using assms(2) by simp
  have xy: "x = 1 / y" using assms(1) by (simp add: y_def)
  have ypos: "0 < y" using y1 by simp
  have nk: "nat (int f - 1) = f - 1" by simp
  have kf: "- (int f - 1) - 1 = - int f" "- (int f - 1) = - int (f - 1)" using f1 by simp_all
  have ilg: "ilog b x = (if rat_of_nat b ^ (f - 1) * x = 1 then - int (f - 1) else - int f)"
    using False f1 unfolding ilog_def Let_def y_def [symmetric] m_def [symmetric] f_def [symmetric] nk
    by auto
  show ?thesis
  proof (cases "rat_of_nat b ^ (f - 1) * x = 1")
    case True
    have il: "ilog b x = - int (f - 1)"
      using True ilg by simp
    have xe: "x = 1 / rat_of_nat b ^ (f - 1)" using True bpos by (simp add: field_simps)
    have "rat_of_nat b powi (- int (f - 1)) = inverse (rat_of_nat b ^ (f - 1))"
      by (simp only: power_int_minus power_int_of_nat)
    also have "\<dots> = x" unfolding xe by (simp only: inverse_eq_divide)
    finally have e1: "rat_of_nat b powi (- int (f - 1)) = x" .
    have "rat_of_nat b powi (- int (f - 1) + 1)
            = rat_of_nat b powi (- int (f - 1)) * rat_of_nat b powi 1"
      using bpos by (intro power_int_add) simp
    then have e2: "rat_of_nat b powi (- int (f - 1) + 1) = rat_of_nat b * x"
      unfolding e1 by simp
    have "x < rat_of_nat b * x" using b1 assms(1) by simp
    then show ?thesis using il e1 e2 by simp
  next
    case neq: False
    have il: "ilog b x = - int f"
      using neq ilg by simp
    have e1: "rat_of_nat b powi (- int f) = 1 / rat_of_nat b ^ f"
      by (simp only: power_int_minus power_int_of_nat inverse_eq_divide)
    have e2: "rat_of_nat b powi (- int f + 1) = 1 / rat_of_nat b ^ (f - 1)"
    proof -
      have "- int f + 1 = - int (f - 1)" using f1 by simp
      then show ?thesis by (simp only: power_int_minus power_int_of_nat inverse_eq_divide)
    qed
    have l1: "1 / rat_of_nat b ^ f \<le> x"
      using hi ypos bpos unfolding xy by (simp add: field_simps)
    have "rat_of_nat b ^ (f - 1) \<noteq> y"
      using neq assms(1) by (auto simp add: y_def)
    then have "rat_of_nat b ^ (f - 1) < y" using lo by simp
    then have l2: "x < 1 / rat_of_nat b ^ (f - 1)"
      using ypos bpos unfolding xy by (simp add: field_simps)
    show ?thesis using il e1 e2 l1 l2 by simp
  qed
qed

lemma ilog_floor_log:
  assumes "0 < x" "1 < b"
  shows "\<lfloor>log (real b) (real_of_rat x)\<rfloor> = ilog b x"
proof -
  have bp: "0 < real b" using assms(2) by simp
  have cast: "real_of_rat (rat_of_nat b powi e) = real b powr real_of_int e" for e
    using bp by (simp add: power_int_def powr_real_of_int of_rat_power of_rat_inverse
        of_rat_divide inverse_eq_divide power_divide)
  have "real b powr real_of_int (ilog b x) \<le> real_of_rat x"
    using ilog_bounds [OF assms] by (metis cast of_rat_less_eq)
  moreover have "real_of_rat x < real b powr real_of_int (ilog b x + 1)"
    using ilog_bounds [OF assms] by (metis cast of_rat_less)
  ultimately show ?thesis
    using assms by (subst floor_log_eq_powr_iff) (simp_all add: of_rat_less [symmetric] del: of_rat_less)
qed

text \<open>The doubles nearest to 0.1, 1.1 and 1/3; -2.5 and 26 are doubles.\<close>

lemma ieee_examples:
  "ieee (1 / 10) = Fin (3602879701896397 / 36028797018963968) \<and>
   ieee (11 / 10) = Fin (2476979795053773 / 2251799813685248) \<and>
   ieee (1 / 3) = Fin (6004799503160661 / 18014398509481984) \<and>
   ieee (- 5 / 2) = Fin (- 5 / 2) \<and>
   ieee 26 = Fin 26"
  by code_simp

text \<open>Rounding to a double commutes with negation and keeps the sign.\<close>

lemma pow2_pos: "0 < pow2 e"
  by (simp add: pow2_def)

lemma round_even_nonneg: "0 \<le> q \<Longrightarrow> 0 \<le> round_even q"
  by (simp add: round_even_def Let_def)

lemma ieee_neg: "ieee (- x) = js_neg (ieee x)"
  by (cases "0 < x"; cases "x = 0") (auto simp add: ieee_def Let_def js_neg_def)

lemma ieee_nonneg:
  assumes "0 < x"
  shows "ieee x = PInf \<or> (\<exists>r. ieee x = Fin r \<and> 0 \<le> r)"
proof -
  let ?u = "pow2 (max (ilog 2 \<bar>x\<bar>) (- 1022) - 52)"
  have "0 \<le> \<bar>x\<bar> / ?u" using pow2_pos [of "max (ilog 2 \<bar>x\<bar>) (- 1022) - 52"] by simp
  then have "0 \<le> round_even (\<bar>x\<bar> / ?u)" by (rule round_even_nonneg)
  then have "0 \<le> rat_of_int (round_even (\<bar>x\<bar> / ?u)) * ?u"
    using pow2_pos [of "max (ilog 2 \<bar>x\<bar>) (- 1022) - 52"] by simp
  then show ?thesis using assms by (auto simp add: ieee_def Let_def)
qed

lemma pow2_powi: "pow2 e = 2 powi e"
  by (simp add: pow2_def power_int_def power_divide inverse_eq_divide)

text \<open>
  A number in the binade of \<open>2 ^ e\<close> is rounded to a multiple of \<open>2 ^ (e - 52)\<close>:
  the rule by which the roundings of large and of tiny numbers are computed below.
\<close>

lemma ilog_unique:
  assumes "0 < x" "1 < b" "of_nat b powi e \<le> x" "x < of_nat b powi (e + 1)"
  shows "ilog b x = e"
proof -
  have b1: "1 \<le> rat_of_nat b" using assms(2) by simp
  have B: "of_nat b powi ilog b x \<le> x" "x < of_nat b powi (ilog b x + 1)"
    using ilog_bounds [OF assms(1,2)] by simp_all
  have "\<not> ilog b x < e"
  proof
    assume "ilog b x < e"
    then have "ilog b x + 1 \<le> e" by simp
    then have "rat_of_nat b powi (ilog b x + 1) \<le> rat_of_nat b powi e"
      using b1 by (rule power_int_increasing)
    with assms(3) B(2) show False by linarith
  qed
  moreover have "\<not> e < ilog b x"
  proof
    assume "e < ilog b x"
    then have "e + 1 \<le> ilog b x" by simp
    then have "rat_of_nat b powi (e + 1) \<le> rat_of_nat b powi ilog b x"
      using b1 by (rule power_int_increasing)
    with assms(4) B(1) show False by linarith
  qed
  ultimately show ?thesis by simp
qed

lemma ieee_normal:
  assumes "pow2 e \<le> x" "x < pow2 (e + 1)" "- 1022 \<le> e" "e < 1023"
  shows "ieee x = Fin (of_int (round_even (x / pow2 (e - 52))) * pow2 (e - 52))"
proof -
  have x: "0 < x" using assms(1) pow2_pos [of e] by linarith
  have "ilog 2 x = e"
    using assms(1,2) by (intro ilog_unique [OF x]) (simp_all add: pow2_powi)
  then have "max (ilog 2 \<bar>x\<bar>) (- 1022) = e" using x assms(3) by simp
  then show ?thesis using x assms(4) by (simp add: ieee_def Let_def)
qed

lemma round_even_down:
  assumes "of_int k \<le> q" "q < of_int k + 1 / 2"
  shows "round_even q = k"
proof -
  have "\<lfloor>q\<rfloor> = k" using assms by (intro floor_unique) simp_all
  then show ?thesis using assms by (simp add: round_even_def Let_def)
qed

lemma round_even_up:
  assumes "of_int k - 1 / 2 < q" "q \<le> of_int k"
  shows "round_even q = k"
proof (cases "q = of_int k")
  case True
  then show ?thesis by (simp add: round_even_def Let_def)
next
  case False
  have "\<lfloor>q\<rfloor> = k - 1" using assms False by (intro floor_unique) simp_all
  then show ?thesis using assms by (simp add: round_even_def Let_def)
qed

lemma ieee_round_down:
  assumes "pow2 e \<le> x" "x < pow2 (e + 1)" "- 1022 \<le> e" "e < 1023"
    "of_int m \<le> x / pow2 (e - 52)" "x / pow2 (e - 52) < of_int m + 1 / 2"
  shows "ieee x = Fin (of_int m * pow2 (e - 52))"
  using ieee_normal [OF assms(1-4)] round_even_down [OF assms(5,6)] by simp

lemma ieee_round_up:
  assumes "pow2 e \<le> x" "x < pow2 (e + 1)" "- 1022 \<le> e" "e < 1023"
    "of_int m - 1 / 2 < x / pow2 (e - 52)" "x / pow2 (e - 52) \<le> of_int m"
  shows "ieee x = Fin (of_int m * pow2 (e - 52))"
  using ieee_normal [OF assms(1-4)] round_even_up [OF assms(5,6)] by simp

text \<open>Rounding to a double is monotone.\<close>

lemma pow2_add: "pow2 (a + b) = pow2 a * pow2 b"
  unfolding pow2_powi by (rule power_int_add) simp

lemma pow2_mono: "a \<le> b \<Longrightarrow> pow2 a \<le> pow2 b"
  unfolding pow2_powi by (rule power_int_increasing) simp_all

lemma pow2_52: "pow2 52 = 4503599627370496" and pow2_53: "pow2 53 = 9007199254740992"
  by (simp_all add: pow2_def)

lemma round_even_ge_floor: "\<lfloor>q\<rfloor> \<le> round_even q"
  by (simp add: round_even_def Let_def)

lemma round_even_ge: "of_int k \<le> q \<Longrightarrow> k \<le> round_even q"
proof -
  assume "of_int k \<le> q"
  then have "k \<le> \<lfloor>q\<rfloor>" by (simp add: le_floor_iff)
  then show ?thesis using round_even_ge_floor [of q] by linarith
qed

lemma round_even_le_floor_Suc: "round_even q \<le> \<lfloor>q\<rfloor> + 1"
  by (simp add: round_even_def Let_def)

lemma round_even_le: "q \<le> of_int k \<Longrightarrow> round_even q \<le> k"
proof (cases "q = of_int k")
  case True
  then show ?thesis by (simp add: round_even_def Let_def)
next
  case False
  assume "q \<le> of_int k"
  with False have "q < of_int k" by simp
  then have "\<lfloor>q\<rfloor> < k" by (simp add: floor_less_iff)
  then show ?thesis using round_even_le_floor_Suc [of q] by linarith
qed

lemma round_even_mono:
  assumes "q \<le> r"
  shows "round_even q \<le> round_even r"
proof (cases "\<lfloor>q\<rfloor> = \<lfloor>r\<rfloor>")
  case True
  then show ?thesis using assms by (auto simp add: round_even_def Let_def)
next
  case False
  then have "\<lfloor>q\<rfloor> < \<lfloor>r\<rfloor>" using floor_mono [OF assms] by simp
  then show ?thesis
    using round_even_le_floor_Suc [of q] round_even_ge_floor [of r] by linarith
qed

lemma ilog_mono:
  assumes "0 < x" "x \<le> y" "1 < b"
  shows "ilog b x \<le> ilog b y"
proof (rule ccontr)
  assume "\<not> ilog b x \<le> ilog b y"
  then have "ilog b y + 1 \<le> ilog b x" by simp
  then have "rat_of_nat b powi (ilog b y + 1) \<le> rat_of_nat b powi ilog b x"
    using assms(3) by (intro power_int_increasing) simp_all
  moreover have "rat_of_nat b powi ilog b x \<le> x"
    using ilog_bounds [OF assms(1,3)] by simp
  moreover have "y < rat_of_nat b powi (ilog b y + 1)"
    using ilog_bounds [of y b] assms by simp
  ultimately show False using assms(2) by linarith
qed

lemma js_le_simps:
  "js_le (Fin p) (Fin q) \<longleftrightarrow> p \<le> q"
  "js_le (Fin p) PInf"
  "js_le PInf PInf"
  "\<not> js_le PInf (Fin q)"
  by (auto simp add: js_le_def js_lt_def js_eq_def)

lemma ieee_mono_pos:
  assumes "0 < x" "x \<le> y"
  shows "js_le (ieee x) (ieee y)"
proof -
  have y: "0 < y" using assms by simp
  define ex where "ex = max (ilog 2 x) (- 1022)"
  define ey where "ey = max (ilog 2 y) (- 1022)"
  define ux where "ux = pow2 (ex - 52)"
  define uy where "uy = pow2 (ey - 52)"
  define mx where "mx = round_even (x / ux)"
  define my where "my = round_even (y / uy)"
  have ix: "ieee x = (if 1023 < ex \<or> (ex = 1023 \<and> mx = 9007199254740992) then PInf
                      else Fin (of_int mx * ux))"
    using assms(1) by (auto simp add: ieee_def Let_def ex_def ux_def mx_def)
  have iy: "ieee y = (if 1023 < ey \<or> (ey = 1023 \<and> my = 9007199254740992) then PInf
                      else Fin (of_int my * uy))"
    using y by (auto simp add: ieee_def Let_def ey_def uy_def my_def)
  have exy: "ex \<le> ey"
    using ilog_mono [OF assms, of 2] by (simp add: ex_def ey_def)
  have ux: "0 < ux" and uy: "0 < uy" by (simp_all add: ux_def uy_def pow2_pos)
  have split: "pow2 (e + 1) = 9007199254740992 * pow2 (e - 52)" for e
    using pow2_add [of 53 "e - 52"] by (simp add: pow2_53 add.commute)
  have split2: "pow2 e = 4503599627370496 * pow2 (e - 52)" for e
    using pow2_add [of 52 "e - 52"] by (simp add: pow2_52 add.commute)
  have xub: "x < pow2 (ex + 1)"
  proof -
    have "x < 2 powi (ilog 2 x + 1)" using ilog_bounds [OF assms(1), of 2] by simp
    also have "\<dots> \<le> 2 powi (ex + 1)"
      by (intro power_int_increasing) (simp_all add: ex_def)
    finally show ?thesis by (simp add: pow2_powi)
  qed
  have "x / ux \<le> 9007199254740992"
    using xub ux unfolding split [of ex] ux_def [symmetric] by (simp add: field_simps)
  then have mx_le: "mx \<le> 9007199254740992"
    unfolding mx_def using round_even_le [of "x / ux" 9007199254740992] by simp
  have yub: "y < pow2 (ey + 1)"
  proof -
    have "y < 2 powi (ilog 2 y + 1)" using ilog_bounds [OF y, of 2] by simp
    also have "\<dots> \<le> 2 powi (ey + 1)"
      by (intro power_int_increasing) (simp_all add: ey_def)
    finally show ?thesis by (simp add: pow2_powi)
  qed
  have "y / uy \<le> 9007199254740992"
    using yub uy unfolding split [of ey] uy_def [symmetric] by (simp add: field_simps)
  then have my_le: "my \<le> 9007199254740992"
    unfolding my_def using round_even_le [of "y / uy" 9007199254740992] by simp
  show ?thesis
  proof (cases "ex = ey")
    case True
    then have u: "ux = uy" by (simp add: ux_def uy_def)
    have "x / ux \<le> y / uy" using assms(2) ux unfolding u by (simp add: divide_right_mono)
    then have m: "mx \<le> my" unfolding mx_def my_def by (rule round_even_mono)
    then have "rat_of_int mx * ux \<le> rat_of_int my * uy"
      using ux unfolding u by (simp add: mult_right_mono)
    then show ?thesis unfolding ix iy using True m my_le by (auto simp add: js_le_simps)
  next
    case False
    then have lt: "ex < ey" using exy by simp
    have "- 1022 \<le> ex" by (simp add: ex_def)
    with lt have eyi: "ey = ilog 2 y" unfolding ey_def by linarith
    have "pow2 ey \<le> y" using ilog_bounds [OF y, of 2] by (simp add: pow2_powi eyi)
    then have "4503599627370496 \<le> y / uy"
      using uy unfolding split2 [of ey] uy_def [symmetric] by (simp add: field_simps)
    then have "4503599627370496 \<le> my"
      unfolding my_def using round_even_ge [of 4503599627370496 "y / uy"] by simp
    then have "4503599627370496 * uy \<le> rat_of_int my * uy"
      using uy by (simp add: mult_right_mono)
    then have lo: "pow2 ey \<le> rat_of_int my * uy"
      unfolding split2 [of ey] uy_def [symmetric] .
    have "rat_of_int mx * ux \<le> 9007199254740992 * ux"
      using mx_le ux by (simp add: mult_right_mono)
    then have hi: "rat_of_int mx * ux \<le> pow2 (ex + 1)"
      unfolding split [of ex] ux_def [symmetric] .
    have "pow2 (ex + 1) \<le> pow2 ey" using lt by (intro pow2_mono) simp
    then have "rat_of_int mx * ux \<le> rat_of_int my * uy" using lo hi by linarith
    then show ?thesis unfolding ix iy using lt by (auto simp add: js_le_simps)
  qed
qed

lemma ieee_zero: "ieee 0 = Fin 0"
  by (simp add: ieee_def)

lemma ieee_nonneg0:
  assumes "0 \<le> x"
  shows "ieee x = PInf \<or> (\<exists>r. ieee x = Fin r \<and> 0 \<le> r)"
  using assms ieee_nonneg [of x] by (cases "x = 0") (auto simp add: ieee_zero)

lemma js_le_neg: "js_le (js_neg a) (js_neg b) \<longleftrightarrow> js_le b a"
  by (cases a; cases b) (auto simp add: js_le_def js_lt_def js_eq_def js_neg_def)

lemma ieee_mono:
  assumes "x \<le> y"
  shows "js_le (ieee x) (ieee y)"
proof -
  consider "0 < x" | "x \<le> 0" "0 \<le> y" | "y < 0" using assms by linarith
  then show ?thesis
  proof cases
    case 1
    then show ?thesis using assms by (rule ieee_mono_pos)
  next
    case 2
    have "ieee (- x) = PInf \<or> (\<exists>r. ieee (- x) = Fin r \<and> 0 \<le> r)"
      using 2(1) by (intro ieee_nonneg0) simp
    then have "ieee x = NInf \<or> (\<exists>r. ieee x = Fin r \<and> r \<le> 0)"
      using ieee_neg [of "- x"] by (auto simp add: js_neg_def)
    then show ?thesis
      using ieee_nonneg0 [OF 2(2)] by (auto simp add: js_le_def js_lt_def js_eq_def)
  next
    case 3
    then have "js_le (ieee (- y)) (ieee (- x))"
      using assms by (intro ieee_mono_pos) simp_all
    then show ?thesis by (simp add: ieee_neg js_le_neg)
  qed
qed

subsection \<open>Binning on concrete data\<close>

text \<open>
  C3. For the data 1, 2, 3, 4, 5 over the range 0 to 5 in five buckets, the counts are
  not 1, 1, 1, 1, 1.
\<close>

theorem bin_example_counts_counterexample:
  "counts (bin ieee (map Fin [1, 2, 3, 4, 5]) (Fin 0) (Fin 5) 5) \<noteq> [1, 1, 1, 1, 1]"
  by code_simp

text \<open>
  C3, as amended. For the data 1, 2, 3, 4, 5 over the range 0 to 5 in five buckets,
  \<open>bin\<close> returns the counts 0, 1, 1, 1, 2 (bucket \<open>i\<close> is the half-open interval from
  \<open>i\<close> to \<open>i + 1\<close>, so 1 falls into bucket 1 and bucket 0 stays empty; 4 falls into
  bucket 4 and 5, equal to the maximum, is added to the same last bucket) and the
  centres 0.5, 1.5, 2.5, 3.5, 4.5.
\<close>

theorem bin_example_counts:
  "bin ieee (map Fin [1, 2, 3, 4, 5]) (Fin 0) (Fin 5) 5 =
     \<lparr>counts = [0, 1, 1, 1, 2],
      centres = [Fin (1 / 2), Fin (3 / 2), Fin (5 / 2), Fin (7 / 2), Fin (9 / 2)]\<rparr>"
  by code_simp

text \<open>
  C5. A value equal to the maximum can be counted twice. With the range 0 to 100 in
  eleven buckets the step is 100 / 11 rounded up to a double, the quotient
  100 / step is rounded to the double below 11, and its floor is the index 10 of the
  last bucket: the value 100 increments \<open>counts[10]\<close> in the first \<open>if\<close> and again in
  the second. In exact arithmetic the quotient is 11 and the value is counted once.
\<close>

theorem bin_max_counted_twice:
  "js_div ieee (Fin 100) (Fin 11) = Fin (5117726849284655 / 562949953421312) \<and>
   js_div ieee (Fin 100) (js_div ieee (Fin 100) (Fin 11))
     = Fin (6192449487634431 / 562949953421312) \<and>
   counts (bin ieee [Fin 100] (Fin 0) (Fin 100) 11) = [0, 0, 0, 0, 0, 0, 0, 0, 0, 0, 2] \<and>
   counts (bin exact [Fin 100] (Fin 0) (Fin 100) 11) = [0, 0, 0, 0, 0, 0, 0, 0, 0, 0, 1]"
  by code_simp

subsection \<open>Counts and centres in general\<close>

lemma exact_add [simp]: "js_add exact (Fin a) (Fin b) = Fin (a + b)"
  by (simp add: js_add_def exact_def)

lemma exact_sub [simp]: "js_sub exact (Fin a) (Fin b) = Fin (a - b)"
  by (simp add: js_sub_def js_neg_def js_add_def exact_def)

lemma exact_mul [simp]: "js_mul exact (Fin a) (Fin b) = Fin (a * b)"
  by (simp add: js_mul_def exact_def)

lemma exact_div [simp]: "b \<noteq> 0 \<Longrightarrow> js_div exact (Fin a) (Fin b) = Fin (a / b)"
  by (simp add: js_div_def exact_def)

lemma length_bin_step [simp]: "length (bin_step rnd mn mx n st cs d) = length cs"
  by (simp add: bin_step_def Let_def)

lemma length_foldl_bin_step [simp]:
  "length (foldl (bin_step rnd mn mx n st) cs ds) = length cs"
  by (induction ds arbitrary: cs) simp_all

lemma sum_list_incr:
  fixes cs :: "nat list"
  shows "sum_list (cs[i := cs ! i + 1]) = (if i < length cs then sum_list cs + 1 else sum_list cs)"
  by (induction cs arbitrary: i) (auto split: nat.splits)

lemma sum_list_incr_Suc [simp]:
  "sum_list (cs[i := Suc (cs ! i)]) = (if i < length cs then Suc (sum_list cs) else sum_list cs)"
  using sum_list_incr [of cs i] by simp

lemma length_counts_bin [simp]: "length (counts (bin rnd ds mn mx n)) = n"
  by (simp add: bin_def Let_def)

lemma centres_bin:
  "centres (bin rnd ds mn mx n) =
     map (\<lambda>i. js_add rnd mn (js_mul rnd (js_add rnd (Fin (of_nat i)) (Fin (1 / 2)))
                                 (js_div rnd (js_sub rnd mx mn) (Fin (of_nat n))))) [0..<n]"
  by (simp add: bin_def Let_def)

text \<open>One step of the loop in exact arithmetic, over a range \<open>a < b\<close>.\<close>

lemma exact_quotient_max:
  fixes a b :: rat
  assumes "a < b" "0 < n"
  shows "(b - a) / ((b - a) / of_nat n) = of_nat n"
  using assms by simp

lemma bin_step_exact_max:
  assumes "a < b" "0 < n"
  shows "bin_step exact (Fin a) (Fin b) n (Fin ((b - a) / of_nat n)) cs (Fin b)
           = cs[n - 1 := cs ! (n - 1) + 1]"
  using assms by (simp add: bin_step_def Let_def js_eq_def Math_floor_def js_ge_def js_le_def js_lt_def)

lemma bin_step_exact_sum_le:
  assumes "a < b" "0 < n"
  shows "sum_list (bin_step exact (Fin a) (Fin b) n (Fin ((b - a) / of_nat n)) cs d)
           \<le> sum_list cs + 1"
proof (cases "d = Fin b")
  case True
  then show ?thesis using assms by (simp add: bin_step_exact_max sum_list_incr_Suc)
next
  case False
  then show ?thesis
    by (simp add: bin_step_def Let_def js_eq_def sum_list_incr_Suc)
qed

lemma bin_step_exact_sum_in_range:
  assumes "a < b" "0 < n" "length cs = n" "a \<le> x" "x \<le> b"
  shows "sum_list (bin_step exact (Fin a) (Fin b) n (Fin ((b - a) / of_nat n)) cs (Fin x))
           = sum_list cs + 1"
proof (cases "x = b")
  case True
  then show ?thesis using assms by (simp add: bin_step_exact_max sum_list_incr_Suc)
next
  case False
  with assms have xb: "x < b" by simp
  let ?q = "(x - a) / ((b - a) / of_nat n)"
  have step: "0 < (b - a) / of_nat n" using assms by simp
  have q0: "0 \<le> ?q" using assms step by simp
  have "x - a < b - a" using xb by simp
  then have qn: "?q < of_nat n" using assms step
    by (simp add: field_simps)
  define k where "k = \<lfloor>?q\<rfloor>"
  have k0: "0 \<le> k" using q0 by (simp add: k_def)
  have kn: "k < int n" using qn by (simp add: k_def floor_less_iff)
  have ne: "(b - a) / of_nat n \<noteq> 0" using assms by simp
  have fl: "Math_floor (js_div exact (js_sub exact (Fin x) (Fin a)) (Fin ((b - a) / of_nat n)))
              = Fin (of_int k)"
    unfolding exact_sub exact_div [OF ne] by (simp add: Math_floor_def k_def)
  have ge: "js_ge (Fin (of_int k)) (Fin 0)"
    using k0 by (auto simp add: js_ge_def js_le_def js_lt_def js_eq_def)
  have lt: "js_lt (Fin (of_int k)) (Fin (of_nat n))"
    using kn by (simp add: js_lt_def)
  have ix: "index_of (Fin (of_int k)) = nat k"
    by (simp add: index_of_def)
  have "bin_step exact (Fin a) (Fin b) n (Fin ((b - a) / of_nat n)) cs (Fin x)
          = cs[nat k := cs ! nat k + 1]"
    unfolding bin_step_def Let_def fl using False ge lt ix by (simp add: js_eq_def)
  moreover have "nat k < length cs" using k0 kn assms(3) by linarith
  ultimately show ?thesis by simp
qed


lemma sum_foldl_exact_le:
  assumes "a < b" "0 < n"
  shows "sum_list (foldl (bin_step exact (Fin a) (Fin b) n (Fin ((b - a) / of_nat n))) cs ds)
           \<le> sum_list cs + length ds"
proof (induction ds arbitrary: cs)
  case Nil
  show ?case by simp
next
  case (Cons d ds)
  show ?case
    using Cons.IH [of "bin_step exact (Fin a) (Fin b) n (Fin ((b - a) / of_nat n)) cs d"]
      bin_step_exact_sum_le [OF assms, of cs d]
    by simp
qed

lemma sum_foldl_exact_eq:
  assumes "a < b" "0 < n"
  shows "length cs = n \<Longrightarrow> \<forall>d\<in>set ds. \<exists>x. d = Fin x \<and> a \<le> x \<and> x \<le> b \<Longrightarrow>
         sum_list (foldl (bin_step exact (Fin a) (Fin b) n (Fin ((b - a) / of_nat n))) cs ds)
           = sum_list cs + length ds"
proof (induction ds arbitrary: cs)
  case Nil
  show ?case by simp
next
  case (Cons d ds)
  from Cons.prems obtain x where d: "d = Fin x" "a \<le> x" "x \<le> b" by auto
  let ?cs = "bin_step exact (Fin a) (Fin b) n (Fin ((b - a) / of_nat n)) cs d"
  have "length ?cs = n" using Cons.prems by simp
  moreover have "\<forall>d\<in>set ds. \<exists>x. d = Fin x \<and> a \<le> x \<and> x \<le> b" using Cons.prems by simp
  ultimately have "sum_list (foldl (bin_step exact (Fin a) (Fin b) n (Fin ((b - a) / of_nat n))) ?cs ds)
      = sum_list ?cs + length ds"
    by (rule Cons.IH)
  moreover have "sum_list ?cs = sum_list cs + 1"
    unfolding d(1) using assms Cons.prems(1) d(2,3) by (rule bin_step_exact_sum_in_range)
  ultimately show ?case by simp
qed

lemma in_range_Fin:
  assumes "js_le (Fin a) d" "js_le d (Fin b)"
  shows "\<exists>x. d = Fin x \<and> a \<le> x \<and> x \<le> b"
  using assms by (cases d) (auto simp add: js_le_def js_lt_def js_eq_def)

lemma counts_bin_exact:
  assumes "0 < n"
  shows "counts (bin exact ds (Fin a) (Fin b) n)
           = foldl (bin_step exact (Fin a) (Fin b) n (Fin ((b - a) / of_nat n))) (replicate n 0) ds"
  using assms by (simp add: bin_def Let_def)

text \<open>
  In exact arithmetic, over a range \<open>a < b\<close> in \<open>n > 0\<close> buckets, the counts sum to at
  most the number of values, and to exactly that number when every value lies between
  the minimum and the maximum.
\<close>

lemma bin_exact_counts_sum:
  assumes "a < b" "0 < n"
  shows "sum_list (counts (bin exact ds (Fin a) (Fin b) n)) \<le> length ds \<and>
         ((\<forall>d\<in>set ds. js_le (Fin a) d \<and> js_le d (Fin b)) \<longrightarrow>
            sum_list (counts (bin exact ds (Fin a) (Fin b) n)) = length ds)"
proof (intro conjI impI)
  show "sum_list (counts (bin exact ds (Fin a) (Fin b) n)) \<le> length ds"
    using sum_foldl_exact_le [OF assms, of "replicate n 0" ds]
    by (simp add: counts_bin_exact [OF assms(2)] sum_list_replicate)
  assume "\<forall>d\<in>set ds. js_le (Fin a) d \<and> js_le d (Fin b)"
  then have "\<forall>d\<in>set ds. \<exists>x. d = Fin x \<and> a \<le> x \<and> x \<le> b"
    using in_range_Fin by blast
  then show "sum_list (counts (bin exact ds (Fin a) (Fin b) n)) = length ds"
    using sum_foldl_exact_eq [OF assms, of "replicate n 0" ds]
    by (simp add: counts_bin_exact [OF assms(2)] sum_list_replicate)
qed

text \<open>
  C6. The counts can sum to more than the number of values: the single value 100, which
  lies in the range 0 to 100, is counted twice with eleven buckets (the step 100 / 11 is
  rounded up, the quotient 100 / step is rounded to the double below 11, and both \<open>if\<close>
  statements increment \<open>counts[10]\<close>), so the counts sum to 2 for one value.
\<close>

theorem bin_counts_sum_exceeds_length:
  "js_le (Fin 0) (Fin 100) \<and> js_le (Fin 100) (Fin 100) \<and>
   length [Fin 100 :: jsnum] = 1 \<and>
   sum_list (counts (bin ieee [Fin 100] (Fin 0) (Fin 100) 11)) = 2"
  by code_simp

text \<open>
  In double arithmetic the quotient of a value below the maximum can also round up to the
  bucket count: the double just below 1 lies in the range 0 to 1, and with three buckets
  it fails the index test and is not counted.
\<close>

lemma bin_in_range_value_dropped:
  "ieee (9007199254740991 / 9007199254740992) = Fin (9007199254740991 / 9007199254740992) \<and>
   js_le (Fin 0) (Fin (9007199254740991 / 9007199254740992)) \<and>
   js_le (Fin (9007199254740991 / 9007199254740992)) (Fin 1) \<and>
   sum_list (counts (bin ieee [Fin (9007199254740991 / 9007199254740992)] (Fin 0) (Fin 1) 3))
     \<noteq> length [Fin (9007199254740991 / 9007199254740992)]"
  by code_simp

text \<open>The centres in exact arithmetic.\<close>

lemma centres_bin_exact:
  assumes "0 < n"
  shows "centres (bin exact ds (Fin a) (Fin b) n)
           = map (\<lambda>i. Fin (a + (of_nat i + 1 / 2) * ((b - a) / of_nat n))) [0..<n]"
  using assms by (simp add: bin_def Let_def)

lemma centres_exact_increasing:
  assumes "a < b" "0 < n"
  shows "sorted_wrt js_lt (centres (bin exact ds (Fin a) (Fin b) n))"
proof -
  have step: "0 < (b - a) / of_nat n" using assms by simp
  have "sorted_wrt js_lt (map (\<lambda>i. Fin (a + (of_nat i + 1 / 2) * ((b - a) / of_nat n))) [0..<n])"
  proof (rule sorted_wrt_map_mono [OF sorted_wrt_upt])
    fix i j :: nat
    assume "i < j"
    then have "(of_nat i + 1 / 2 :: rat) < of_nat j + 1 / 2" by simp
    then have "(of_nat i + 1 / 2) * ((b - a) / of_nat n) < (of_nat j + 1 / 2) * ((b - a) / of_nat n)"
      using step by (rule mult_strict_right_mono)
    then show "js_lt (Fin (a + (of_nat i + 1 / 2) * ((b - a) / of_nat n)))
                     (Fin (a + (of_nat j + 1 / 2) * ((b - a) / of_nat n)))"
      by (simp add: js_lt_def)
  qed
  then show ?thesis by (simp add: centres_bin_exact [OF assms(2)])
qed

lemma centres_exact_last:
  assumes "0 < n"
  shows "centres (bin exact ds (Fin a) (Fin b) n) ! (n - 1) = Fin (b - (b - a) / of_nat n / 2)"
proof -
  have "a + (of_nat (n - 1) + 1 / 2) * ((b - a) / of_nat n) = b - (b - a) / of_nat n / 2"
    using assms by (simp add: field_simps)
  then show ?thesis using assms by (simp add: centres_bin_exact)
qed

lemma half_ieee: "ieee (1 / 2) = Fin (1 / 2)"
  by code_simp

lemma half_exact: "exact (1 / 2) = Fin (1 / 2)"
  by (simp add: exact_def)

lemma mul_half_eq_div_two:
  "js_mul rnd (Fin (1 / 2)) st = js_div rnd st (Fin 2)"
  by (cases st) (simp_all add: js_mul_def js_div_def js_sign_def)

lemma centres_first:
  assumes "rnd (1 / 2) = Fin (1 / 2)" "0 < n"
  shows "centres (bin rnd ds mn mx n) ! 0
           = js_add rnd mn (js_div rnd (js_div rnd (js_sub rnd mx mn) (Fin (of_nat n))) (Fin 2))"
proof -
  have "js_add rnd (Fin 0) (Fin (1 / 2)) = Fin (1 / 2)"
    using assms(1) by (simp add: js_add_def)
  then show ?thesis
    using assms(2) by (simp add: centres_bin mul_half_eq_div_two)
qed

text \<open>The step of a finite range, and the half-integers below \<open>2 ^ 32\<close>.\<close>

lemma step_nonneg:
  assumes "a < b" "0 < n"
  shows "js_div ieee (js_sub ieee (Fin b) (Fin a)) (Fin (of_nat n)) = PInf \<or>
         (\<exists>s. js_div ieee (js_sub ieee (Fin b) (Fin a)) (Fin (of_nat n)) = Fin s \<and> 0 \<le> s)"
proof -
  have d: "js_sub ieee (Fin b) (Fin a) = ieee (b - a)"
    by (simp add: js_sub_def js_add_def js_neg_def)
  have "ieee (b - a) = PInf \<or> (\<exists>r. ieee (b - a) = Fin r \<and> 0 \<le> r)"
    using assms(1) by (intro ieee_nonneg0) simp
  then show ?thesis
  proof
    assume "ieee (b - a) = PInf"
    then show ?thesis using assms(2) by (simp add: d js_div_def js_sign_def)
  next
    assume "\<exists>r. ieee (b - a) = Fin r \<and> 0 \<le> r"
    then obtain r where r: "ieee (b - a) = Fin r" "0 \<le> r" by auto
    have "0 \<le> r / of_nat n" using r(2) by simp
    then show ?thesis
      using ieee_nonneg0 [of "r / of_nat n"] assms(2) by (simp add: d r(1) js_div_def)
  qed
qed

lemma ieee_two_33: "ieee 8589934592 = Fin 8589934592"
  using ieee_round_down [of 33 8589934592 "2 ^ 52"] by (simp add: pow2_def)

lemma half_integer:
  assumes "i < 4294967296"
  shows "\<exists>t. js_add ieee (Fin (of_nat i)) (Fin (1 / 2)) = Fin t \<and> 0 < t"
proof -
  have lo: "js_le (ieee (1 / 2)) (ieee (of_nat i + 1 / 2))"
    by (rule ieee_mono) simp
  have "rat_of_nat i + 1 / 2 \<le> 8589934592"
  proof -
    have "rat_of_nat i \<le> rat_of_nat 4294967296" using assms by (simp only: of_nat_le_iff)
    then show ?thesis by simp
  qed
  then have hi: "js_le (ieee (of_nat i + 1 / 2)) (ieee 8589934592)"
    by (rule ieee_mono)
  show ?thesis
    using lo hi unfolding half_ieee ieee_two_33
    by (cases "ieee (of_nat i + 1 / 2)") (auto simp add: js_add_def js_le_def js_lt_def js_eq_def)
qed

lemma centre_mono:
  assumes "a < b" "0 < n" "i \<le> j" "j < 4294967296"
  shows "js_le (js_add ieee (Fin a) (js_mul ieee (js_add ieee (Fin (of_nat i)) (Fin (1 / 2)))
                   (js_div ieee (js_sub ieee (Fin b) (Fin a)) (Fin (of_nat n)))))
               (js_add ieee (Fin a) (js_mul ieee (js_add ieee (Fin (of_nat j)) (Fin (1 / 2)))
                   (js_div ieee (js_sub ieee (Fin b) (Fin a)) (Fin (of_nat n)))))"
proof -
  let ?st = "js_div ieee (js_sub ieee (Fin b) (Fin a)) (Fin (of_nat n))"
  have i: "i < 4294967296" using assms(3,4) by simp
  obtain ti where ti: "js_add ieee (Fin (of_nat i)) (Fin (1 / 2)) = Fin ti" "0 < ti"
    using half_integer [OF i] by auto
  obtain tj where tj: "js_add ieee (Fin (of_nat j)) (Fin (1 / 2)) = Fin tj" "0 < tj"
    using half_integer [OF assms(4)] by auto
  have "js_le (ieee (of_nat i + 1 / 2)) (ieee (of_nat j + 1 / 2))"
    using assms(3) by (intro ieee_mono) simp
  then have tij: "ti \<le> tj" using ti(1) tj(1) by (simp add: js_add_def js_le_simps)
  from step_nonneg [OF assms(1,2)] show ?thesis
  proof
    assume "?st = PInf"
    then show ?thesis using ti tj by (simp add: js_mul_def js_sign_def js_add_def js_le_simps)
  next
    assume "\<exists>s. ?st = Fin s \<and> 0 \<le> s"
    then obtain s where s: "?st = Fin s" "0 \<le> s" by auto
    have le: "js_le (ieee (ti * s)) (ieee (tj * s))"
      using tij s(2) by (intro ieee_mono mult_right_mono)
    have pi: "ieee (ti * s) = PInf \<or> (\<exists>r. ieee (ti * s) = Fin r \<and> 0 \<le> r)"
      using ti(2) s(2) by (intro ieee_nonneg0) simp
    have pj: "ieee (tj * s) = PInf \<or> (\<exists>r. ieee (tj * s) = Fin r \<and> 0 \<le> r)"
      using tj(2) s(2) by (intro ieee_nonneg0) simp
    have any: "js_le (ieee z) PInf" for z
      by (auto simp add: ieee_def Let_def js_le_def js_lt_def js_eq_def)
    show ?thesis
      unfolding s(1) ti(1) tj(1)
      using le pi pj any ieee_mono [of "a + p" "a + q" for p q]
      by (auto simp add: js_mul_def js_add_def js_le_simps)
  qed
qed

lemma centres_nondecreasing:
  assumes "a < b" "0 < n" "n \<le> 4294967296"
  shows "sorted_wrt js_le (centres (bin ieee ds (Fin a) (Fin b) n))"
  unfolding centres_bin
proof (rule sorted_wrt_map_mono [OF sorted_wrt_upt])
  fix i j :: nat
  assume "i < j" "j \<in> set [0..<n]"
  then have "i \<le> j" "j < 4294967296" using assms(3) by simp_all
  with assms(1,2) show "js_le (js_add ieee (Fin a) (js_mul ieee (js_add ieee (Fin (of_nat i)) (Fin (1 / 2)))
                   (js_div ieee (js_sub ieee (Fin b) (Fin a)) (Fin (of_nat n)))))
               (js_add ieee (Fin a) (js_mul ieee (js_add ieee (Fin (of_nat j)) (Fin (1 / 2)))
                   (js_div ieee (js_sub ieee (Fin b) (Fin a)) (Fin (of_nat n)))))"
    by (rule centre_mono)
qed

text \<open>
  The range from 1 to the next double, \<open>1 + 2 ^ - 52\<close>, in four buckets: the step is
  \<open>2 ^ - 54\<close>, and the centres round to 1, 1 and twice the next double.
\<close>

lemma tight_range_step:
  "js_div ieee (js_sub ieee (Fin (1 + 1 / 2 ^ 52)) (Fin 1)) (Fin 4) = Fin (1 / 2 ^ 54)"
proof -
  have "ieee (1 / 2 ^ 52) = Fin (1 / 2 ^ 52)"
    using ieee_round_down [of "- 52" "1 / 2 ^ 52" "2 ^ 52"] by (simp add: pow2_def)
  then have "js_sub ieee (Fin (1 + 1 / 2 ^ 52)) (Fin 1) = Fin (1 / 2 ^ 52)"
    by (simp add: js_sub_def js_add_def js_neg_def)
  moreover have "ieee (1 / 2 ^ 54) = Fin (1 / 2 ^ 54)"
    using ieee_round_down [of "- 54" "1 / 2 ^ 54" "2 ^ 52"] by (simp add: pow2_def)
  ultimately show ?thesis by (simp add: js_div_def)
qed

lemma tight_range_offsets:
  "js_mul ieee (js_add ieee (Fin 0) (Fin (1 / 2))) (Fin (1 / 2 ^ 54)) = Fin (1 / 2 ^ 55)"
  "js_mul ieee (js_add ieee (Fin 1) (Fin (1 / 2))) (Fin (1 / 2 ^ 54)) = Fin (3 / 2 ^ 55)"
  "js_mul ieee (js_add ieee (Fin 2) (Fin (1 / 2))) (Fin (1 / 2 ^ 54)) = Fin (5 / 2 ^ 55)"
  "js_mul ieee (js_add ieee (Fin 3) (Fin (1 / 2))) (Fin (1 / 2 ^ 54)) = Fin (7 / 2 ^ 55)"
proof -
  have h: "ieee (1 / 2) = Fin (1 / 2)" "ieee (3 / 2) = Fin (3 / 2)"
    "ieee (5 / 2) = Fin (5 / 2)" "ieee (7 / 2) = Fin (7 / 2)"
    using ieee_round_down [of "- 1" "1 / 2" "2 ^ 52"] ieee_round_down [of 0 "3 / 2" "3 * 2 ^ 51"]
      ieee_round_down [of 1 "5 / 2" "5 * 2 ^ 50"] ieee_round_down [of 1 "7 / 2" "7 * 2 ^ 50"]
    by (simp_all add: pow2_def)
  have p: "ieee (1 / 2 ^ 55) = Fin (1 / 2 ^ 55)" "ieee (3 / 2 ^ 55) = Fin (3 / 2 ^ 55)"
    "ieee (5 / 2 ^ 55) = Fin (5 / 2 ^ 55)" "ieee (7 / 2 ^ 55) = Fin (7 / 2 ^ 55)"
    using ieee_round_down [of "- 55" "1 / 2 ^ 55" "2 ^ 52"]
      ieee_round_down [of "- 54" "3 / 2 ^ 55" "3 * 2 ^ 51"]
      ieee_round_down [of "- 53" "5 / 2 ^ 55" "5 * 2 ^ 50"]
      ieee_round_down [of "- 53" "7 / 2 ^ 55" "7 * 2 ^ 50"]
    by (simp_all add: pow2_def)
  show "js_mul ieee (js_add ieee (Fin 0) (Fin (1 / 2))) (Fin (1 / 2 ^ 54)) = Fin (1 / 2 ^ 55)"
    using h(1) p(1) by (simp add: js_add_def js_mul_def)
  show "js_mul ieee (js_add ieee (Fin 1) (Fin (1 / 2))) (Fin (1 / 2 ^ 54)) = Fin (3 / 2 ^ 55)"
    using h(2) p(2) by (simp add: js_add_def js_mul_def)
  show "js_mul ieee (js_add ieee (Fin 2) (Fin (1 / 2))) (Fin (1 / 2 ^ 54)) = Fin (5 / 2 ^ 55)"
    using h(3) p(3) by (simp add: js_add_def js_mul_def)
  show "js_mul ieee (js_add ieee (Fin 3) (Fin (1 / 2))) (Fin (1 / 2 ^ 54)) = Fin (7 / 2 ^ 55)"
    using h(4) p(4) by (simp add: js_add_def js_mul_def)
qed

lemma tight_range_sums:
  "js_add ieee (Fin 1) (Fin (1 / 2 ^ 55)) = Fin 1"
  "js_add ieee (Fin 1) (Fin (3 / 2 ^ 55)) = Fin 1"
  "js_add ieee (Fin 1) (Fin (5 / 2 ^ 55)) = Fin (1 + 1 / 2 ^ 52)"
  "js_add ieee (Fin 1) (Fin (7 / 2 ^ 55)) = Fin (1 + 1 / 2 ^ 52)"
  using ieee_round_down [of 0 "1 + 1 / 2 ^ 55" "2 ^ 52"]
    ieee_round_down [of 0 "1 + 3 / 2 ^ 55" "2 ^ 52"]
    ieee_round_up [of 0 "1 + 5 / 2 ^ 55" "2 ^ 52 + 1"]
    ieee_round_up [of 0 "1 + 7 / 2 ^ 55" "2 ^ 52 + 1"]
  by (simp_all add: pow2_def js_add_def)

lemma tight_range_centres:
  "centres (bin ieee [] (Fin 1) (Fin (1 + 1 / 2 ^ 52)) 4)
     = [Fin 1, Fin 1, Fin (1 + 1 / 2 ^ 52), Fin (1 + 1 / 2 ^ 52)]"
proof -
  have u: "[0..<4] = [0, 1, 2, 3]" by (simp add: upt_rec)
  show ?thesis
    unfolding centres_bin u list.map of_nat_numeral of_nat_0 of_nat_1 tight_range_step
      tight_range_offsets tight_range_sums ..
qed

text \<open>
  C7, as amended. For every finite range \<open>a < b\<close> and bucket count \<open>n > 0\<close> (an array
  has fewer than \<open>2 ^ 32\<close> elements), in double arithmetic: there are \<open>n\<close> centres; they
  are non-decreasing; centre \<open>i\<close> is \<open>min + (i + 0.5) * stepSize\<close> with
  \<open>stepSize = (max - min) / n\<close>; and the first centre is \<open>min + stepSize / 2\<close>.
\<close>

theorem bin_centres:
  assumes "a < b" "0 < n" "n < 4294967296"
  shows "length (centres (bin ieee ds (Fin a) (Fin b) n)) = n \<and>
         sorted_wrt js_le (centres (bin ieee ds (Fin a) (Fin b) n)) \<and>
         (\<forall>i<n. centres (bin ieee ds (Fin a) (Fin b) n) ! i =
                  js_add ieee (Fin a)
                    (js_mul ieee (js_add ieee (Fin (of_nat i)) (Fin (1 / 2)))
                       (js_div ieee (js_sub ieee (Fin b) (Fin a)) (Fin (of_nat n))))) \<and>
         centres (bin ieee ds (Fin a) (Fin b) n) ! 0 =
           js_add ieee (Fin a)
             (js_div ieee (js_div ieee (js_sub ieee (Fin b) (Fin a)) (Fin (of_nat n))) (Fin 2))"
proof (intro conjI)
  show "length (centres (bin ieee ds (Fin a) (Fin b) n)) = n"
    by (simp add: centres_bin)
  show "sorted_wrt js_le (centres (bin ieee ds (Fin a) (Fin b) n))"
    using assms by (intro centres_nondecreasing) simp_all
  show "\<forall>i<n. centres (bin ieee ds (Fin a) (Fin b) n) ! i =
                  js_add ieee (Fin a)
                    (js_mul ieee (js_add ieee (Fin (of_nat i)) (Fin (1 / 2)))
                       (js_div ieee (js_sub ieee (Fin b) (Fin a)) (Fin (of_nat n))))"
    by (simp add: centres_bin)
  show "centres (bin ieee ds (Fin a) (Fin b) n) ! 0 =
           js_add ieee (Fin a)
             (js_div ieee (js_div ieee (js_sub ieee (Fin b) (Fin a)) (Fin (of_nat n))) (Fin 2))"
    using half_ieee assms(2) by (rule centres_first)
qed

text \<open>C7, witness: the range 0 to 1 in three buckets.\<close>

theorem bin_centres_witness:
  "(0::rat) < 1 \<and> (0::nat) < 3 \<and> (3::nat) < 4294967296 \<and>
   length (centres (bin ieee [] (Fin 0) (Fin 1) 3)) = 3 \<and>
   sorted_wrt js_le (centres (bin ieee [] (Fin 0) (Fin 1) 3)) \<and>
   centres (bin ieee [] (Fin 0) (Fin 1) 3) ! 0 =
     js_add ieee (Fin 0) (js_div ieee (js_div ieee (js_sub ieee (Fin 1) (Fin 0)) (Fin 3)) (Fin 2))"
  using bin_centres [of 0 1 3 "[]"] by simp

text \<open>
  C7, as stated, fails in double arithmetic on two counts. Over the range 0 to 1 in three
  buckets the last centre \<open>0 + 2.5 * stepSize\<close> and \<open>1 - stepSize / 2\<close> are different
  doubles. Over the range from 1 to the next double \<open>1 + 2 ^ - 52\<close> in four buckets the
  centres are 1, 1, \<open>1 + 2 ^ - 52\<close>, \<open>1 + 2 ^ - 52\<close>, which is not strictly increasing.
\<close>

theorem bin_centres_counterexample:
  "centres (bin ieee [] (Fin 0) (Fin 1) 3) ! (3 - 1)
     \<noteq> js_sub ieee (Fin 1) (js_div ieee (js_div ieee (js_sub ieee (Fin 1) (Fin 0)) (Fin 3)) (Fin 2)) \<and>
   (1::rat) < 1 + 1 / 2 ^ 52 \<and>
   centres (bin ieee [] (Fin 1) (Fin (1 + 1 / 2 ^ 52)) 4)
     = [Fin 1, Fin 1, Fin (1 + 1 / 2 ^ 52), Fin (1 + 1 / 2 ^ 52)] \<and>
   \<not> sorted_wrt js_lt (centres (bin ieee [] (Fin 1) (Fin (1 + 1 / 2 ^ 52)) 4))"
proof (intro conjI)
  show "centres (bin ieee [] (Fin 0) (Fin 1) 3) ! (3 - 1)
     \<noteq> js_sub ieee (Fin 1) (js_div ieee (js_div ieee (js_sub ieee (Fin 1) (Fin 0)) (Fin 3)) (Fin 2))"
    by code_simp
  show "(1::rat) < 1 + 1 / 2 ^ 52" by simp
  show "centres (bin ieee [] (Fin 1) (Fin (1 + 1 / 2 ^ 52)) 4)
     = [Fin 1, Fin 1, Fin (1 + 1 / 2 ^ 52), Fin (1 + 1 / 2 ^ 52)]"
    by (rule tight_range_centres)
  show "\<not> sorted_wrt js_lt (centres (bin ieee [] (Fin 1) (Fin (1 + 1 / 2 ^ 52)) 4))"
    unfolding tight_range_centres by (simp add: js_lt_def)
qed

subsection \<open>Tick step size\<close>

text \<open>
  C4. The step for the range 0 to 104 is not 25.
\<close>

theorem tickStepSize_104_counterexample:
  "calculateTickStepSize ieee (Fin 104) (Fin 0) \<noteq> Fin 25"
  by code_simp

lemma calculateTickStepSize_spec:
  "calculateTickStepSize rnd mx mn = tickStepSize_spec rnd mx mn"
  by (simp add: calculateTickStepSize_def tickStepSize_spec_def Let_def)

lemma tick_examples:
  "js_div ieee (js_sub ieee (Fin 104) (Fin 0)) (Fin 4) = Fin 26 \<and>
   \<not> js_gt (Fin 26) (Fin 100) \<and>
   calculateTickStepSize ieee (Fin 104) (Fin 0) = Fin 26 \<and>
   calculateTickStepSize ieee (Fin 1) (Fin 0) = Fin (1 / 2) \<and>
   calculateTickStepSize ieee (Fin 3) (Fin 0) = Fin 1"
  by code_simp

text \<open>
  C4, as amended. With \<open>raw = (104 - 0) / 4 = 26\<close>, which is not above 100, the step
  for the range 0 to 104 is \<open>round(26) = 26\<close>, from the last branch; the step is 0.5 for
  the range 0 to 1 and 1 for the range 0 to 3; and in general the function is the one the
  specification words: with \<open>raw = (max - min) / 4\<close>, 0.5 if \<open>raw < 0.5\<close>, else 1
  if \<open>raw < 1\<close>, else \<open>round(raw / magnitude) * magnitude\<close> with
  \<open>magnitude = 10 ^ floor(log10(raw))\<close> if \<open>raw > 100\<close>, else \<open>round(raw)\<close>.
\<close>

theorem calculateTickStepSize_branches:
  "js_div ieee (js_sub ieee (Fin 104) (Fin 0)) (Fin 4) = Fin 26 \<and>
   \<not> js_gt (Fin 26) (Fin 100) \<and>
   calculateTickStepSize ieee (Fin 104) (Fin 0) = Fin 26 \<and>
   calculateTickStepSize ieee (Fin 1) (Fin 0) = Fin (1 / 2) \<and>
   calculateTickStepSize ieee (Fin 3) (Fin 0) = Fin 1 \<and>
   calculateTickStepSize rnd mx mn = tickStepSize_spec rnd mx mn"
  using tick_examples calculateTickStepSize_spec by simp

subsection \<open>Tick labels\<close>

lemma abs_div_negative:
  assumes "x < 0" "0 < c"
  shows "Math_abs (js_div ieee (Fin x) (Fin c)) = js_div ieee (Fin (- x)) (Fin c)"
proof -
  have pos: "0 < - x / c" using assms by (simp add: field_simps)
  have "ieee (x / c) = js_neg (ieee (- x / c))"
    using ieee_neg [of "- x / c"] by simp
  moreover have "Math_abs (js_neg (ieee (- x / c))) = ieee (- x / c)"
    using ieee_nonneg [OF pos] by (auto simp add: Math_abs_def js_neg_def)
  ultimately show ?thesis using assms by (simp add: js_div_def)
qed

lemma prettyLabel_negative:
  assumes "js_lt v (Fin 0)"
  shows "prettyLabel ieee (Num v) withSign = minus_sign @ prettyLabel ieee (Num (js_neg v)) False"
proof (cases v)
  case (Fin x)
  with assms have x: "x < 0" by (simp add: js_lt_def)
  have a1: "Math_abs (js_div ieee (Fin x) (Fin 1000000)) = js_div ieee (Fin (- x)) (Fin 1000000)"
    using x by (simp add: abs_div_negative)
  have a2: "Math_abs (js_div ieee (Fin x) (Fin 1000)) = js_div ieee (Fin (- x)) (Fin 1000)"
    using x by (simp add: abs_div_negative)
  have a3: "Math_abs (Fin x) = Fin (- x)" using x by (simp add: Math_abs_def)
  show ?thesis
    unfolding prettyLabel_def Fin label_value.case js_neg_def jsnum.case a1 a2 a3
    using x by (auto simp add: js_eq_def js_ge_def js_le_def js_lt_def)
next
  case PInf
  with assms show ?thesis by (simp add: js_lt_def)
next
  case NInf
  show ?thesis
    unfolding NInf
    by (simp add: prettyLabel_def js_neg_def js_eq_def js_ge_def js_le_def js_lt_def
        js_div_def js_sign_def Math_abs_def)
next
  case NaN
  with assms show ?thesis by (simp add: js_lt_def)
qed

lemma prettyLabel_positive:
  assumes "js_gt v (Fin 0)"
  shows "prettyLabel rnd (Num v) withSign
           = (if withSign then ''+'' else []) @ prettyLabel rnd (Num v) False"
  using assms
  by (cases v) (auto simp add: prettyLabel_def js_gt_def js_eq_def js_ge_def js_le_def js_lt_def)

lemma prettyLabel_examples:
  "prettyLabel ieee (Num (Fin 2500000)) False = ''2.5M'' \<and>
   prettyLabel ieee (Num (Fin (- 2500))) False = minus_sign @ ''2.5K'' \<and>
   prettyLabel ieee (Num (Fin 0)) False = ''0'' \<and>
   prettyLabel ieee (Num (Fin 5)) True = ''+5''"
  by code_simp

text \<open>The text of a positive number starts with a digit, or is \<open>Infinity\<close>.\<close>

lemma digit_nth: "n < 10 \<Longrightarrow> ''0123456789'' ! n \<in> digit_chars"
  unfolding digit_chars_def by (rule nth_mem) simp

lemma digit_nth_nonzero:
  assumes "0 < n" "n < 10"
  shows "''0123456789'' ! n \<noteq> CHR ''0''"
proof -
  from assms have "n \<in> {1, 2, 3, 4, 5, 6, 7, 8, 9}" by auto
  then show ?thesis by auto
qed

lemma dec_nonempty: "dec n \<noteq> []"
  by (subst dec.simps) simp

lemma hd_dec_digit: "hd (dec n) \<in> digit_chars"
proof (induction n rule: dec.induct)
  case (1 n)
  show ?case
  proof (cases "n < 10")
    case True
    then show ?thesis by (subst dec.simps) (simp add: digit_nth)
  next
    case False
    then have "hd (dec n) = hd (dec (n div 10))"
      by (subst dec.simps) (simp add: dec_nonempty)
    then show ?thesis using "1.IH" False by simp
  qed
qed

lemma hd_dec_nonzero: "0 < n \<Longrightarrow> hd (dec n) \<noteq> CHR ''0''"
proof (induction n rule: dec.induct)
  case (1 n)
  show ?case
  proof (cases "n < 10")
    case True
    then have "dec n = [''0123456789'' ! n]" by (subst dec.simps) (simp only: if_True)
    then have "hd (dec n) = ''0123456789'' ! n" by (simp only: list.sel)
    with digit_nth_nonzero [OF "1.prems" True] show ?thesis by metis
  next
    case False
    then have "hd (dec n) = hd (dec (n div 10))"
      by (subst dec.simps) (simp add: dec_nonempty)
    moreover have "0 < n div 10" using False by simp
    ultimately show ?thesis using "1.IH" False by simp
  qed
qed

lemma strip_zeros_hd:
  assumes "ds \<noteq> []" "hd ds \<noteq> CHR ''0''"
  shows "strip_zeros ds \<noteq> [] \<and> hd (strip_zeros ds) = hd ds"
proof -
  from assms obtain c cs where ds: "ds = c # cs" "c \<noteq> CHR ''0''" by (cases ds) auto
  show ?thesis
    unfolding strip_zeros_def ds by (simp add: dropWhile_append ds(2))
qed

lemma pow10_powi: "pow10 e = 10 powi e"
  by (simp add: pow10_def power_int_def power_divide inverse_eq_divide)

lemma shortest_digits_pos:
  assumes "pow10 (n - 1) \<le> x"
  shows "1 \<le> k \<Longrightarrow> 1 \<le> fst (shortest_digits fuel k x n)"
proof (induction fuel arbitrary: k)
  case 0
  have u: "0 < pow10 (n - int k)" by (simp add: pow10_powi)
  have "pow10 (n - int k) \<le> pow10 (n - 1)"
    using 0 unfolding pow10_powi by (intro power_int_increasing) simp_all
  then have "pow10 (n - int k) \<le> x" using assms by simp
  then have "1 \<le> x / pow10 (n - int k)" using u by (simp add: field_simps)
  then have "1 \<le> \<lfloor>x / pow10 (n - int k)\<rfloor>" by simp
  then have "1 \<le> round_even (x / pow10 (n - int k))"
    using round_even_ge_floor [of "x / pow10 (n - int k)"] by linarith
  then show ?case by simp
next
  case (Suc fuel)
  have u: "0 < pow10 (n - int k)" by (simp add: pow10_powi)
  have "pow10 (n - int k) \<le> pow10 (n - 1)"
    using Suc.prems unfolding pow10_powi by (intro power_int_increasing) simp_all
  then have "pow10 (n - int k) \<le> x" using assms by simp
  then have "1 \<le> x / pow10 (n - int k)" using u by (simp add: field_simps)
  then have lo: "1 \<le> \<lfloor>x / pow10 (n - int k)\<rfloor>" by simp
  then have re: "1 \<le> round_even (x / pow10 (n - int k))"
    using round_even_ge_floor [of "x / pow10 (n - int k)"] by linarith
  have nlo: "1 \<le> nat \<lfloor>x / pow10 (n - int k)\<rfloor>" using lo by linarith
  have nhi: "1 \<le> nat (\<lfloor>x / pow10 (n - int k)\<rfloor> + 1)" using lo by linarith
  have nre: "1 \<le> nat (round_even (x / pow10 (n - int k)))" using re by linarith
  have "1 \<le> fst (shortest_digits fuel (Suc k) x n)"
    by (rule Suc.IH) simp
  then show ?case using nlo nhi nre by (simp add: Let_def)
qed

lemma toString_pos_hd:
  assumes "0 < x"
  shows "toString_pos x \<noteq> [] \<and> hd (toString_pos x) \<in> digit_chars"
proof -
  obtain s k0 where sk: "shortest_digits 16 1 x (ilog 10 x + 1) = (s, k0)"
    by (cases "shortest_digits 16 1 x (ilog 10 x + 1)")
  have "pow10 (ilog 10 x + 1 - 1) \<le> x"
    using ilog_bounds [OF assms, of 10] by (simp add: pow10_powi)
  then have "1 \<le> fst (shortest_digits 16 1 x (ilog 10 x + 1))"
    by (rule shortest_digits_pos) simp
  then have s: "0 < s" using sk by simp
  define ds where "ds = strip_zeros (dec s)"
  have ds: "ds \<noteq> []" "hd ds \<in> digit_chars"
    using strip_zeros_hd [OF dec_nonempty hd_dec_nonzero [OF s]] hd_dec_digit [of s]
    by (simp_all add: ds_def)
  have zero: "CHR ''0'' \<in> digit_chars" by (simp add: digit_chars_def)
  show ?thesis
    unfolding toString_pos_def Let_def sk prod.case ds_def [symmetric]
    using ds zero by (auto simp add: hd_append)
qed

lemma toString_nonneg_hd:
  assumes "y = PInf \<or> (\<exists>r. y = Fin r \<and> 0 \<le> r)"
  shows "toString y \<noteq> [] \<and> hd (toString y) \<noteq> CHR ''+''"
proof -
  have plus: "CHR ''+'' \<notin> digit_chars" by (simp add: digit_chars_def)
  from assms show ?thesis
  proof
    assume "y = PInf"
    then show ?thesis by (simp add: toString_def)
  next
    assume "\<exists>r. y = Fin r \<and> 0 \<le> r"
    then obtain r where r: "y = Fin r" "0 \<le> r" by auto
    show ?thesis
    proof (cases "r = 0")
      case True
      then show ?thesis using r by (simp add: toString_def)
    next
      case False
      then have "0 < r" using r by simp
      then show ?thesis using toString_pos_hd [of r] plus r by (auto simp add: toString_def)
    qed
  qed
qed

lemma div_positive_nonneg:
  assumes "js_gt v (Fin 0)" "0 < c"
  shows "js_div ieee v (Fin c) = PInf \<or> (\<exists>r. js_div ieee v (Fin c) = Fin r \<and> 0 \<le> r)"
proof (cases v)
  case (Fin x)
  with assms have "0 < x / c" by (simp add: js_gt_def js_lt_def)
  then show ?thesis using ieee_nonneg [of "x / c"] assms Fin by (simp add: js_div_def)
next
  case PInf
  then show ?thesis using assms by (simp add: js_div_def js_sign_def)
next
  case NInf
  then show ?thesis using assms by (simp add: js_gt_def js_lt_def)
next
  case NaN
  then show ?thesis using assms by (simp add: js_gt_def js_lt_def)
qed

lemma prettyLabel_unsigned_hd:
  assumes "js_gt v (Fin 0)"
  shows "hd (prettyLabel ieee (Num v) False) \<noteq> CHR ''+''"
proof -
  have v: "v = PInf \<or> (\<exists>r. v = Fin r \<and> 0 \<le> r)"
    using assms by (cases v) (auto simp add: js_gt_def js_lt_def)
  have h0: "toString v \<noteq> [] \<and> hd (toString v) \<noteq> CHR ''+''"
    using v by (rule toString_nonneg_hd)
  have h1: "toString (js_div ieee v (Fin 1000000)) \<noteq> [] \<and>
            hd (toString (js_div ieee v (Fin 1000000))) \<noteq> CHR ''+''"
    using div_positive_nonneg [OF assms, of 1000000] by (intro toString_nonneg_hd) simp
  have h2: "toString (js_div ieee v (Fin 1000)) \<noteq> [] \<and>
            hd (toString (js_div ieee v (Fin 1000))) \<noteq> CHR ''+''"
    using div_positive_nonneg [OF assms, of 1000] by (intro toString_nonneg_hd) simp
  have neg: "\<not> js_le v (Fin (- 1000000))" "\<not> js_le v (Fin (- 1000))" "js_ge v (Fin 0)"
    using assms by (cases v; simp add: js_gt_def js_ge_def js_le_def js_lt_def js_eq_def)+
  show ?thesis
    unfolding prettyLabel_def label_value.case using h0 h1 h2 neg by simp
qed

lemma abs_negative: "js_lt v (Fin 0) \<Longrightarrow> Math_abs v = js_neg v"
  by (cases v) (simp_all add: js_lt_def Math_abs_def js_neg_def)

text \<open>
  C8. \<open>prettyLabel(2500000)\<close> is \<open>2.5M\<close>, \<open>prettyLabel(-2500)\<close> is \<open>2.5K\<close> after
  the minus sign U+2212 (the bytes E2 88 92, not the hyphen-minus 2D), \<open>prettyLabel(0)\<close>
  is \<open>0\<close> and \<open>prettyLabel(5, true)\<close> is \<open>+5\<close>. Every negative value is rendered as
  the minus sign U+2212 followed by the rendering of its absolute value. Every positive
  value is rendered with a leading \<open>+\<close> when \<open>withSign\<close> is true, and as the same text
  without it, which does not start with \<open>+\<close>, when \<open>withSign\<close> is false.
\<close>

theorem prettyLabel_signs:
  "prettyLabel ieee (Num (Fin 2500000)) False = ''2.5M'' \<and>
   prettyLabel ieee (Num (Fin (- 2500))) False = minus_sign @ ''2.5K'' \<and>
   prettyLabel ieee (Num (Fin 0)) False = ''0'' \<and>
   prettyLabel ieee (Num (Fin 5)) True = ''+5'' \<and>
   minus_sign = [CHR 0xE2, CHR 0x88, CHR 0x92] \<and>
   (js_lt v (Fin 0) \<longrightarrow>
      prettyLabel ieee (Num v) withSign
        = minus_sign @ prettyLabel ieee (Num (Math_abs v)) False) \<and>
   (js_gt w (Fin 0) \<longrightarrow>
      prettyLabel ieee (Num w) withSign
        = (if withSign then ''+'' else []) @ prettyLabel ieee (Num w) False \<and>
      hd (prettyLabel ieee (Num w) False) \<noteq> CHR ''+'')"
  using prettyLabel_examples prettyLabel_negative [of v withSign] abs_negative [of v]
    prettyLabel_positive [of w ieee withSign] prettyLabel_unsigned_hd [of w]
  by (simp add: minus_sign_def)

text \<open>C8, witness: the values -1500 and 7.\<close>

theorem prettyLabel_signs_witness:
  "js_lt (Fin (- 1500)) (Fin 0) \<and>
   prettyLabel ieee (Num (Fin (- 1500))) True = minus_sign @ ''1.5K'' \<and>
   js_gt (Fin 7) (Fin 0) \<and>
   prettyLabel ieee (Num (Fin 7)) True = ''+7'' \<and>
   prettyLabel ieee (Num (Fin 7)) False = ''7''"
proof -
  have l: "js_lt (Fin (- 1500)) (Fin 0)" by (simp add: js_lt_def)
  have g: "js_gt (Fin 7) (Fin 0)" by (simp add: js_gt_def js_lt_def)
  have a: "Math_abs (Fin (- 1500)) = Fin 1500" by (simp add: Math_abs_def)
  have e1: "prettyLabel ieee (Num (Fin 1500)) False = ''1.5K''" by code_simp
  have e2: "prettyLabel ieee (Num (Fin 7)) False = ''7''" by code_simp
  from prettyLabel_signs [of "Fin (- 1500)" True "Fin 7"] l g a e1 e2
  show ?thesis by simp
qed

subsection \<open>Chart payloads\<close>

text \<open>
  C1. In the overlay of scenario A (values 1, 1, 1: mean 1, counts 3 and 0) and the
  comparison scenario B (values 1, 3, 2: mean 2, counts 1 and 2), the red dashed
  marker, labelled with the mean of B, is drawn at \<open>x = 1\<close>, the mean of A, and up to
  \<open>1.1 * 3\<close>, from the counts of A; not at \<open>x = 2\<close> up to \<open>1.1 * 2\<close>.
\<close>

theorem overlay_comparison_marker_at_primary_mean:
  "getMean ieee (getValues ''x'' scenario_A) = Fin 1 \<and>
   getMean ieee (getValues ''x'' scenario_B) = Fin 2 \<and>
   counts (bin ieee (getValues ''x'' scenario_A) (Fin 0) (Fin 4) 2) = [3, 0] \<and>
   counts (bin ieee (getValues ''x'' scenario_B) (Fin 0) (Fin 4) 2) = [1, 2] \<and>
   label (datasets (makeChartDataTwoScenarios sample_env ''x'' scenario_A scenario_B 2) ! 0)
     = ''B mean: 2.00'' \<and>
   borderColor (datasets (makeChartDataTwoScenarios sample_env ''x'' scenario_A scenario_B 2) ! 0)
     = Some ''#ff0000'' \<and>
   data (datasets (makeChartDataTwoScenarios sample_env ''x'' scenario_A scenario_B 2) ! 0)
     = Points [(Fin 1, Fin 5), (Fin 1, js_mul ieee (Fin 3) (ieee (11 / 10)))] \<and>
   data (datasets (makeChartDataTwoScenarios sample_env ''x'' scenario_A scenario_B 2) ! 0)
     \<noteq> Points [(Fin 2, Fin 5), (Fin 2, js_mul ieee (Fin 2) (ieee (11 / 10)))]"
  by code_simp

text \<open>Whatever the scenarios, the two markers of the overlay are the same segment.\<close>

lemma overlay_markers_coincide:
  "data (datasets (makeChartDataTwoScenarios E indicator scen compareScenario nbars) ! 0)
     = data (datasets (makeChartDataTwoScenarios E indicator scen compareScenario nbars) ! 1)"
  by (simp add: makeChartDataTwoScenarios_def Let_def dataset_def)

text \<open>
  C2. For scenario A compared with itself every difference is 0 and none is retained;
  \<open>Math.min()\<close> of no arguments is \<open>Infinity\<close> and \<open>Math.max()\<close> is \<open>-Infinity\<close>, so
  the bound \<open>max\<close> of the range is \<open>Infinity\<close>, not the floor 0.1; the labels and the
  tick step size of the payload are \<open>NaN\<close>.
\<close>

theorem difference_identical_scenarios_max_infinite:
  "differences ieee (getValues ''x'' scenario_A) (getValues ''x'' scenario_A) = [] \<and>
   Math_min [] = PInf \<and> Math_max [] = NInf \<and>
   difference_max ieee [] = PInf \<and>
   difference_max ieee [] \<noteq> ieee (1 / 10) \<and>
   labels (makeChartDataDifference sample_env ''x'' scenario_A scenario_A 2) = [NaN, NaN] \<and>
   tickStepSize (makeChartDataDifference sample_env ''x'' scenario_A scenario_A 2) = NaN"
  by code_simp

text \<open>
  C9. Without a comparison scenario \<open>makeChartData\<close> returns the single-scenario
  payload, whatever the chart style; with one it returns the overlay payload for the
  style \<open>both\<close>, the difference payload for the style \<open>difference\<close>, and no payload
  (\<open>undefined\<close>) for any other style.
\<close>

theorem makeChartData_dispatch:
  "makeChartData E indicator scen None nbars chartStyle
     = Some (makeChartDataOneScenario E indicator scen nbars) \<and>
   makeChartData E indicator scen (Some cmp) nbars ''both''
     = Some (makeChartDataTwoScenarios E indicator scen cmp nbars) \<and>
   makeChartData E indicator scen (Some cmp) nbars ''difference''
     = Some (makeChartDataDifference E indicator scen cmp nbars) \<and>
   (chartStyle \<noteq> ''both'' \<and> chartStyle \<noteq> ''difference'' \<longrightarrow>
      makeChartData E indicator scen (Some cmp) nbars chartStyle = None)"
  by (simp add: makeChartData_def)

text \<open>C9, witness: the style \<open>overlay\<close>.\<close>

theorem makeChartData_dispatch_witness:
  "''overlay'' \<noteq> ''both'' \<and> ''overlay'' \<noteq> ''difference'' \<and>
   makeChartData sample_env ''x'' scenario_A (Some scenario_B) 2 ''overlay'' = None"
  using makeChartData_dispatch [of sample_env "''x''" scenario_A 2 "''overlay''" scenario_B]
  by simp

text \<open>
  C10. In the single-scenario and the overlay payloads the labels and the tick step size
  are the same for any two indicators and scenarios (or pairs of scenarios): the labels
  are the bucket centres over the configured range, the tick step size is that of the
  configured range.
\<close>

theorem labels_and_ticks_independent_of_data:
  "labels (makeChartDataOneScenario E indicator scen nbars)
     = labels (makeChartDataOneScenario E indicator' scen' nbars) \<and>
   tickStepSize (makeChartDataOneScenario E indicator scen nbars)
     = tickStepSize (makeChartDataOneScenario E indicator' scen' nbars) \<and>
   labels (makeChartDataTwoScenarios E indicator scen cmp nbars)
     = labels (makeChartDataTwoScenarios E indicator' scen' cmp' nbars) \<and>
   tickStepSize (makeChartDataTwoScenarios E indicator scen cmp nbars)
     = tickStepSize (makeChartDataTwoScenarios E indicator' scen' cmp' nbars) \<and>
   labels (makeChartDataOneScenario E indicator scen nbars)
     = centres (bin (arith E) [] (scale_min E) (scale_max E) nbars) \<and>
   labels (makeChartDataTwoScenarios E indicator scen cmp nbars)
     = centres (bin (arith E) [] (scale_min E) (scale_max E) nbars) \<and>
   tickStepSize (makeChartDataOneScenario E indicator scen nbars)
     = calculateTickStepSize (arith E) (scale_max E) (scale_min E) \<and>
   tickStepSize (makeChartDataTwoScenarios E indicator scen cmp nbars)
     = calculateTickStepSize (arith E) (scale_max E) (scale_min E)"
  by (simp add: makeChartDataOneScenario_def makeChartDataTwoScenarios_def Let_def centres_bin)

end
